theory Spec2Isabelle
  imports Complex_Main "HOL-Library.AList" "HOL-Library.Char_ord" "HOL-Library.List_Lexorder"
begin

section \<open>Python values, exceptions and strings\<close>

text \<open>
  The attendance store of \<^verbatim>\<open>attendance.py\<close> (class \<^verbatim>\<open>AttendanceTracker\<close>) is
  embedded function by function. Python is dynamically typed, so the arguments that the
  store validates are values of \<open>pyval\<close>; \<open>PyFloat\<close> carries the number a float denotes.

  A Python string is the list of its code points, a \<open>ustring\<close>. What the store keeps and
  renders itself (dates in ISO format, the three statuses, decimal numbers) is ASCII and
  stays a \<open>string\<close>; \<open>ustr\<close> turns such a string into the Python string it is.

  An exception is a value of \<open>error\<close>; the three validation failures of the store are all
  \<^verbatim>\<open>ValueError\<close>s, told apart by their message.
\<close>

type_synonym ustring = "nat list"

definition codepoint :: "char \<Rightarrow> nat" where
  "codepoint c = of_char c"

definition ustr :: "string \<Rightarrow> ustring" where
  "ustr s = map codepoint s"

datatype pyval = PyInt int | PyBool bool | PyStr ustring | PyNone | PyFloat rat

datatype error = ValueError string | KeyError string | TypeError string | CsvError string

definition InvalidEmployeeId :: error where
  "InvalidEmployeeId = ValueError ''Invalid employee ID''"

definition InvalidDateFormat :: error where
  "InvalidDateFormat = ValueError ''Date must be in YYYY-MM-DD format''"

definition InvalidStatus :: error where
  "InvalidStatus = ValueError ''Status must be one of Present, Absent, Leave''"

text \<open>
  The decimal digits of Unicode, which \<^verbatim>\<open>\d\<close> of a regular expression matches and
  \<^verbatim>\<open>int\<close> reads: they come in runs of ten, from the digit zero of a script to its digit
  nine. \<open>decimal_zeros\<close> lists the zeros of the Unicode database 14.0, the one of
  CPython 3.11; a later database has more scripts, and so more runs.
\<close>

definition decimal_zeros :: "nat list" where
  "decimal_zeros =
    [0x30, 0x660, 0x6F0, 0x7C0, 0x966, 0x9E6, 0xA66, 0xAE6, 0xB66, 0xBE6, 0xC66, 0xCE6,
     0xD66, 0xDE6, 0xE50, 0xED0, 0xF20, 0x1040, 0x1090, 0x17E0, 0x1810, 0x1946, 0x19D0,
     0x1A80, 0x1A90, 0x1B50, 0x1BB0, 0x1C40, 0x1C50, 0xA620, 0xA8D0, 0xA900, 0xA9D0,
     0xA9F0, 0xAA50, 0xABF0, 0xFF10, 0x104A0, 0x10D30, 0x11066, 0x110F0, 0x11136, 0x111D0,
     0x112F0, 0x11450, 0x114D0, 0x11650, 0x116C0, 0x11730, 0x118E0, 0x11950, 0x11C50,
     0x11D50, 0x11DA0, 0x16A60, 0x16AC0, 0x16B50, 0x1D7CE, 0x1D7D8, 0x1D7E2, 0x1D7EC,
     0x1D7F6, 0x1E140, 0x1E2F0, 0x1E950, 0x1FBF0]"

definition decimal :: "nat \<Rightarrow> nat option" where
  "decimal c =
     (case find (\<lambda>z. z \<le> c \<and> c < z + 10) decimal_zeros of
        None \<Rightarrow> None
      | Some z \<Rightarrow> Some (c - z))"

definition digit_value :: "nat \<Rightarrow> nat" where
  "digit_value c = (case decimal c of None \<Rightarrow> 0 | Some v \<Rightarrow> v)"

text \<open>The ASCII digits, as characters.\<close>

definition is_digit :: "char \<Rightarrow> bool" where
  "is_digit c = (48 \<le> (of_char c :: nat) \<and> (of_char c :: nat) \<le> 57)"

definition digit_val :: "char \<Rightarrow> nat" where
  "digit_val c = of_char c - 48"

definition digit_chr :: "nat \<Rightarrow> char" where
  "digit_chr n = char_of (48 + n)"

text \<open>\<^verbatim>\<open>str(n)\<close> for a natural number and for an integer.\<close>

fun str_nat :: "nat \<Rightarrow> string" where
  "str_nat n = (if n < 10 then [digit_chr n] else str_nat (n div 10) @ [digit_chr (n mod 10)])"

declare str_nat.simps [simp del]

definition str_int :: "int \<Rightarrow> string" where
  "str_int i = (if i < 0 then CHR ''-'' # str_nat (nat (- i)) else str_nat (nat i))"

text \<open>\<^verbatim>\<open>'%0wd' % n\<close> for \<open>n \<ge> 0\<close>: the decimal digits, padded with zeros to width \<open>w\<close>.\<close>

definition zfill :: "nat \<Rightarrow> nat \<Rightarrow> string" where
  "zfill w n = replicate (w - length (str_nat n)) (CHR ''0'') @ str_nat n"

text \<open>
  \<^verbatim>\<open>int(s)\<close> for a string, base 10. White space is stripped at both ends: the ASCII
  characters tab to carriage return and the space, and the white space beyond ASCII
  (the separators U+001C to U+001F are not stripped). One sign may follow, then decimal
  digits of any script, where a single underscore may stand between two digits.
  \<open>None\<close> is the \<^verbatim>\<open>ValueError\<close> of an invalid literal.
\<close>

definition is_space :: "nat \<Rightarrow> bool" where
  "is_space c =
     ((9 \<le> c \<and> c \<le> 13) \<or> c = 32 \<or> c = 0x85 \<or> c = 0xA0 \<or> c = 0x1680
      \<or> (0x2000 \<le> c \<and> c \<le> 0x200A) \<or> c = 0x2028 \<or> c = 0x2029 \<or> c = 0x202F
      \<or> c = 0x205F \<or> c = 0x3000)"

fun int_digits :: "nat \<Rightarrow> ustring \<Rightarrow> nat option" where
  "int_digits acc [] = Some acc"
| "int_digits acc [c] = (if decimal c \<noteq> None then Some (10 * acc + digit_value c) else None)"
| "int_digits acc (c # d # cs) =
     (if decimal c \<noteq> None then int_digits (10 * acc + digit_value c) (d # cs)
      else if c = codepoint CHR ''_'' \<and> decimal d \<noteq> None then int_digits (10 * acc + digit_value d) cs
      else None)"

definition int_body :: "ustring \<Rightarrow> nat option" where
  "int_body s = (case s of [] \<Rightarrow> None
     | c # cs \<Rightarrow> if decimal c \<noteq> None then int_digits (digit_value c) cs else None)"

definition strip :: "ustring \<Rightarrow> ustring" where
  "strip s = rev (dropWhile is_space (rev (dropWhile is_space s)))"

definition py_int :: "ustring \<Rightarrow> int option" where
  "py_int s = (case strip s of
       [] \<Rightarrow> None
     | c # cs \<Rightarrow>
         if c = codepoint CHR ''-'' then map_option (\<lambda>n. - int n) (int_body cs)
         else if c = codepoint CHR ''+'' then map_option int (int_body cs)
         else map_option int (int_body (c # cs)))"

section \<open>Dates: \<^verbatim>\<open>datetime.strptime(date, "%Y-%m-%d").date().isoformat()\<close>\<close>

text \<open>
  \<^verbatim>\<open>strptime\<close> compiles the format to the regular expression
  \<^verbatim>\<open>(\d\d\d\d)-(1[0-2]|0[1-9]|[1-9])-(3[0-1]|[1-2]\d|0[1-9]|[1-9]| [1-9])\<close>,
  matches it at the start of the string and raises \<^verbatim>\<open>ValueError\<close> when there is no
  match or when the match leaves characters over. A \<^verbatim>\<open>\d\<close> takes a decimal digit of
  any script, a class such as \<^verbatim>\<open>[1-9]\<close> ASCII digits only; the number of a group is
  \<^verbatim>\<open>int\<close> of its text. Each \<open>match_\<close> function takes the first alternative that
  matches, as the regular expression does: for the month no later alternative can
  succeed where an earlier one matched and the hyphen after it did not, and the day ends
  the expression. The date is then built by \<^verbatim>\<open>datetime.date\<close>, which raises
  \<^verbatim>\<open>ValueError\<close> for the year 0 and for a day beyond the month's length.
\<close>

definition nonzero_digit :: "nat \<Rightarrow> bool" where
  "nonzero_digit c = (49 \<le> c \<and> c \<le> 57)"

fun match_Y :: "ustring \<Rightarrow> (nat \<times> ustring) option" where
  "match_Y (a # b # c # d # rest) =
     (if decimal a \<noteq> None \<and> decimal b \<noteq> None \<and> decimal c \<noteq> None \<and> decimal d \<noteq> None
      then Some (1000 * digit_value a + 100 * digit_value b + 10 * digit_value c + digit_value d, rest)
      else None)"
| "match_Y _ = None"

fun match_m :: "ustring \<Rightarrow> (nat \<times> ustring) option" where
  "match_m [] = None"
| "match_m [a] = (if nonzero_digit a then Some (a - 48, []) else None)"
| "match_m (a # b # rest) =
     (if a = codepoint CHR ''1''
         \<and> (b = codepoint CHR ''0'' \<or> b = codepoint CHR ''1'' \<or> b = codepoint CHR ''2'')
        then Some (10 + (b - 48), rest)
      else if a = codepoint CHR ''0'' \<and> nonzero_digit b then Some (b - 48, rest)
      else if nonzero_digit a then Some (a - 48, b # rest)
      else None)"

fun match_d :: "ustring \<Rightarrow> (nat \<times> ustring) option" where
  "match_d [] = None"
| "match_d [a] = (if nonzero_digit a then Some (a - 48, []) else None)"
| "match_d (a # b # rest) =
     (if a = codepoint CHR ''3'' \<and> (b = codepoint CHR ''0'' \<or> b = codepoint CHR ''1'')
        then Some (30 + (b - 48), rest)
      else if (a = codepoint CHR ''1'' \<or> a = codepoint CHR ''2'') \<and> decimal b \<noteq> None
        then Some (10 * (a - 48) + digit_value b, rest)
      else if a = codepoint CHR ''0'' \<and> nonzero_digit b then Some (b - 48, rest)
      else if nonzero_digit a then Some (a - 48, b # rest)
      else if a = codepoint CHR '' '' \<and> nonzero_digit b then Some (b - 48, rest)
      else None)"

fun match_hyphen :: "ustring \<Rightarrow> ustring option" where
  "match_hyphen (c # rest) = (if c = codepoint CHR ''-'' then Some rest else None)"
| "match_hyphen [] = None"

definition is_leap :: "nat \<Rightarrow> bool" where
  "is_leap y = (y mod 4 = 0 \<and> (y mod 100 \<noteq> 0 \<or> y mod 400 = 0))"

definition days_in_month :: "nat \<Rightarrow> nat \<Rightarrow> nat" where
  "days_in_month y m =
     (if m = 2 then (if is_leap y then 29 else 28)
      else if m = 4 \<or> m = 6 \<or> m = 9 \<or> m = 11 then 30 else 31)"

definition valid_ymd :: "nat \<Rightarrow> nat \<Rightarrow> nat \<Rightarrow> bool" where
  "valid_ymd y m d = (1 \<le> y \<and> y \<le> 9999 \<and> 1 \<le> m \<and> m \<le> 12 \<and> 1 \<le> d \<and> d \<le> days_in_month y m)"

definition strptime :: "ustring \<Rightarrow> (nat \<times> nat \<times> nat) option" where
  "strptime s =
     (case match_Y s of None \<Rightarrow> None | Some (y, r1) \<Rightarrow>
     (case match_hyphen r1 of None \<Rightarrow> None | Some r2 \<Rightarrow>
     (case match_m r2 of None \<Rightarrow> None | Some (m, r3) \<Rightarrow>
     (case match_hyphen r3 of None \<Rightarrow> None | Some r4 \<Rightarrow>
     (case match_d r4 of None \<Rightarrow> None | Some (d, r5) \<Rightarrow>
        if r5 \<noteq> [] then None
        else if valid_ymd y m d then Some (y, m, d) else None)))))"

definition isoformat :: "nat \<times> nat \<times> nat \<Rightarrow> string" where
  "isoformat ymd = (case ymd of (y, m, d) \<Rightarrow>
     zfill 4 y @ ''-'' @ zfill 2 m @ ''-'' @ zfill 2 d)"

text \<open>
  \<^verbatim>\<open>_validate_date\<close>: a value that is not a string makes \<^verbatim>\<open>strptime\<close> raise
  \<^verbatim>\<open>TypeError\<close>, which is caught and raised again as the same \<^verbatim>\<open>ValueError\<close>.
\<close>

definition validate_date :: "pyval \<Rightarrow> error + string" where
  "validate_date date =
     (case date of
        PyStr s \<Rightarrow> (case strptime s of
                     Some ymd \<Rightarrow> Inr (isoformat ymd)
                   | None \<Rightarrow> Inl InvalidDateFormat)
      | _ \<Rightarrow> Inl InvalidDateFormat)"

text \<open>
  \<^verbatim>\<open>_validate_emp_id\<close>; the model hands back the integer that \<^verbatim>\<open>isinstance\<close> has
  found, which is the dictionary key from then on. A \<^verbatim>\<open>bool\<close> is an \<^verbatim>\<open>int\<close>:
  \<^verbatim>\<open>True\<close> is 1 and passes, \<^verbatim>\<open>False\<close> is 0.
\<close>

definition validate_emp_id :: "pyval \<Rightarrow> error + int" where
  "validate_emp_id emp_id =
     (case emp_id of
        PyInt n \<Rightarrow> if n \<le> 0 then Inl InvalidEmployeeId else Inr n
      | PyBool b \<Rightarrow> if b then Inr 1 else Inl InvalidEmployeeId
      | _ \<Rightarrow> Inl InvalidEmployeeId)"

definition VALID_STATUSES :: "string list" where
  "VALID_STATUSES = [''Present'', ''Absent'', ''Leave'']"

text \<open>\<^verbatim>\<open>_validate_status\<close>; the model hands back the status as the ASCII string it is.\<close>

definition validate_status :: "pyval \<Rightarrow> error + string" where
  "validate_status status =
     (case status of
        PyStr s \<Rightarrow> (case find (\<lambda>v. ustr v = s) VALID_STATUSES of
                     None \<Rightarrow> Inl InvalidStatus
                   | Some v \<Rightarrow> Inr v)
      | _ \<Rightarrow> Inl InvalidStatus)"

section \<open>The store\<close>

text \<open>
  A Python \<^verbatim>\<open>dict\<close> is an association list in insertion order: \<open>AList.update\<close> is
  \<^verbatim>\<open>d[k] = v\<close> (in place for a key that is there, at the end for a new one),
  \<open>AList.delete\<close> is \<^verbatim>\<open>del d[k]\<close>, \<open>map_of\<close> is \<^verbatim>\<open>d.get(k)\<close>. A dictionary has no
  key twice, which is \<open>dict_ok\<close>.
\<close>

type_synonym day_records = "(string \<times> string) list"

text \<open>
  The keys of \<^verbatim>\<open>self.records\<close> are integers. The one key that can be a \<^verbatim>\<open>bool\<close>
  is the key 1, when the entry was made with \<^verbatim>\<open>True\<close>: \<open>key_True\<close> says so, since
  \<^verbatim>\<open>str\<close> of that key is \<^verbatim>\<open>True\<close>.
\<close>

record tracker =
  records :: "(int \<times> day_records) list"
  key_True :: bool

definition new_tracker :: tracker where
  "new_tracker = \<lparr>records = [], key_True = False\<rparr>"

definition dict_ok :: "('k \<times> 'v) list \<Rightarrow> bool" where
  "dict_ok d = distinct (map fst d)"

definition tracker_ok :: "tracker \<Rightarrow> bool" where
  "tracker_ok t = (dict_ok (records t) \<and> list_all (\<lambda>(e, r). dict_ok r) (records t))"

text \<open>
  \<^verbatim>\<open>d.setdefault(k, {})[k2] = v\<close>: the inner dictionary of \<open>k\<close>, a new empty one put
  at the end when \<open>k\<close> is new, gets \<open>k2\<close> set to \<open>v\<close>.
\<close>

definition setdefault_set :: "int \<Rightarrow> string \<Rightarrow> string \<Rightarrow> (int \<times> day_records) list \<Rightarrow> (int \<times> day_records) list" where
  "setdefault_set k k2 v d =
     (case map_of d k of
        None \<Rightarrow> d @ [(k, AList.update k2 v [])]
      | Some inner \<Rightarrow> AList.update k (AList.update k2 v inner) d)"

text \<open>
  A method that mutates the store returns its result, or the exception it raised, with
  the store as it is at that moment.
\<close>

definition add_record :: "pyval \<Rightarrow> pyval \<Rightarrow> pyval \<Rightarrow> tracker \<Rightarrow> (error + unit) \<times> tracker" where
  "add_record emp_id date status t =
     (case validate_emp_id emp_id of Inl e \<Rightarrow> (Inl e, t) | Inr n \<Rightarrow>
     (case validate_date date of Inl e \<Rightarrow> (Inl e, t) | Inr normalized_date \<Rightarrow>
     (case validate_status status of Inl e \<Rightarrow> (Inl e, t) | Inr s \<Rightarrow>
        (Inr (), t\<lparr>records := setdefault_set n normalized_date s (records t),
                   key_True := (if n = 1 \<and> map_of (records t) 1 = None then emp_id = PyBool True
                                else key_True t)\<rparr>))))"

definition get_records :: "tracker \<Rightarrow> int \<Rightarrow> day_records option" where
  "get_records t emp_id = map_of (records t) emp_id"

definition delete_record :: "int \<Rightarrow> pyval \<Rightarrow> tracker \<Rightarrow> (error + bool) \<times> tracker" where
  "delete_record emp_id date t =
     (case validate_date date of Inl e \<Rightarrow> (Inl e, t) | Inr normalized_date \<Rightarrow>
     (case map_of (records t) emp_id of
        None \<Rightarrow> (Inr False, t)
      | Some inner \<Rightarrow>
          if normalized_date \<in> fst ` set inner then
            (let inner' = AList.delete normalized_date inner in
             if inner' = [] then (Inr True, t\<lparr>records := AList.delete emp_id (records t)\<rparr>)
             else (Inr True, t\<lparr>records := AList.update emp_id inner' (records t)\<rparr>))
          else (Inr False, t)))"

definition get_all_records :: "tracker \<Rightarrow> (int \<times> day_records) list" where
  "get_all_records t = records t"

text \<open>
  \<^verbatim>\<open>_summarize\<close>: \<^verbatim>\<open>summary[status] += 1\<close> raises \<^verbatim>\<open>KeyError\<close> for a status that
  is no key of \<open>summary\<close>.
\<close>

fun summarize_loop :: "string list \<Rightarrow> (string \<times> nat) list \<Rightarrow> error + (string \<times> nat) list" where
  "summarize_loop [] summary = Inr summary"
| "summarize_loop (status # rest) summary =
     (case map_of summary status of
        None \<Rightarrow> Inl (KeyError status)
      | Some n \<Rightarrow> summarize_loop rest (AList.update status (n + 1) summary))"

definition summarize :: "day_records \<Rightarrow> error + (string \<times> nat) list" where
  "summarize recs = summarize_loop (map snd recs) (map (\<lambda>status. (status, 0)) VALID_STATUSES)"

definition get_summary :: "tracker \<Rightarrow> int \<Rightarrow> error + (string \<times> nat) list option" where
  "get_summary t emp_id =
     (case map_of (records t) emp_id of
        None \<Rightarrow> Inr None
      | Some recs \<Rightarrow> (case summarize recs of Inl e \<Rightarrow> Inl e | Inr summary \<Rightarrow> Inr (Some summary)))"

fun get_all_summaries_loop :: "(int \<times> day_records) list \<Rightarrow> (int \<times> (string \<times> nat) list) list \<Rightarrow> error + (int \<times> (string \<times> nat) list) list" where
  "get_all_summaries_loop [] acc = Inr acc"
| "get_all_summaries_loop ((emp_id, recs) # rest) acc =
     (case summarize recs of
        Inl e \<Rightarrow> Inl e
      | Inr summary \<Rightarrow> get_all_summaries_loop rest (AList.update emp_id summary acc))"

definition get_all_summaries :: "tracker \<Rightarrow> error + (int \<times> (string \<times> nat) list) list" where
  "get_all_summaries t = get_all_summaries_loop (records t) []"

text \<open>
  \<^verbatim>\<open>get_attendance_rate\<close>. A Python float is modelled by the rational number it stands
  for: the quotient and the product are exact here, where binary64 rounds each of them.
\<close>

definition get_attendance_rate :: "tracker \<Rightarrow> int \<Rightarrow> error + rat option" where
  "get_attendance_rate t emp_id =
     (case map_of (records t) emp_id of
        None \<Rightarrow> Inr None
      | Some recs \<Rightarrow>
         (case summarize recs of
            Inl e \<Rightarrow> Inl e
          | Inr summary \<Rightarrow>
             (let total = sum_list (map snd summary) in
              if total = 0 then Inr (Some 0)
              else (case map_of summary ''Present'' of
                      None \<Rightarrow> Inl (KeyError ''Present'')
                    | Some present \<Rightarrow> Inr (Some ((of_nat present / of_nat total) * 100))))))"

text \<open>
  \<^verbatim>\<open>filter_by_date_range\<close>: the dictionary comprehension and the loop both build their
  dictionary by assignment, key after key; strings compare by code point, lexicographically.
\<close>

definition dict_of_items :: "('k \<times> 'v) list \<Rightarrow> ('k \<times> 'v) list" where
  "dict_of_items items = fold (\<lambda>(k, v). AList.update k v) items []"

definition in_range :: "string \<Rightarrow> string \<Rightarrow> string \<Rightarrow> bool" where
  "in_range start end' date = (start \<le> date \<and> date \<le> end')"

definition filter_step :: "string \<Rightarrow> string \<Rightarrow> int \<times> day_records \<Rightarrow> (int \<times> day_records) list \<Rightarrow> (int \<times> day_records) list" where
  "filter_step start end' item filtered =
     (case item of (emp_id, recs) \<Rightarrow>
        (let filtered_records = dict_of_items (filter (\<lambda>(date, status). in_range start end' date) recs)
         in if filtered_records \<noteq> [] then AList.update emp_id filtered_records filtered else filtered))"

definition filter_by_date_range :: "pyval \<Rightarrow> pyval \<Rightarrow> tracker \<Rightarrow> error + (int \<times> day_records) list" where
  "filter_by_date_range start_date end_date t =
     (case validate_date start_date of Inl e \<Rightarrow> Inl e | Inr start \<Rightarrow>
     (case validate_date end_date of Inl e \<Rightarrow> Inl e | Inr end' \<Rightarrow>
        Inr (fold (filter_step start end') (records t) [])))"

section \<open>What the specification calls a canonical date\<close>

text \<open>
  The specification's canonical form: ten characters, four digits of the year, a hyphen,
  two digits of the month, a hyphen, two digits of the day, which name a day of the
  calendar.
\<close>

fun canonical_date :: "string \<Rightarrow> bool" where
  "canonical_date [y1, y2, y3, y4, h1, m1, m2, h2, d1, d2] =
     (is_digit y1 \<and> is_digit y2 \<and> is_digit y3 \<and> is_digit y4 \<and> h1 = CHR ''-'' \<and>
      is_digit m1 \<and> is_digit m2 \<and> h2 = CHR ''-'' \<and> is_digit d1 \<and> is_digit d2 \<and>
      valid_ymd (1000 * digit_val y1 + 100 * digit_val y2 + 10 * digit_val y3 + digit_val y4)
                (10 * digit_val m1 + digit_val m2) (10 * digit_val d1 + digit_val d2))"
| "canonical_date _ = False"

section \<open>Files in the tabular format\<close>

text \<open>
  A file is the string it holds. The \<^verbatim>\<open>csv\<close> module is modelled in its default
  dialect (comma, double quote, \<^verbatim>\<open>QUOTE_MINIMAL\<close>, doubled quotes, line end
  \<^verbatim>\<open>\r\n\<close>, no escape character, not strict); its limit on the length of a field and
  the interpreter's limit on the digits of \<^verbatim>\<open>str(int)\<close> are left out.
\<close>

definition CR :: nat where "CR = 0x0D"
definition LF :: nat where "LF = 0x0A"
definition DQUOTE :: nat where "DQUOTE = 0x22"
definition COMMA :: nat where "COMMA = 0x2C"

subsection \<open>\<^verbatim>\<open>csv.writer\<close> and \<^verbatim>\<open>export_to_csv\<close>\<close>

definition needs_quotes :: "ustring \<Rightarrow> bool" where
  "needs_quotes f = (\<exists>c\<in>set f. c = COMMA \<or> c = DQUOTE \<or> c = CR \<or> c = LF)"

definition quote_field :: "ustring \<Rightarrow> ustring" where
  "quote_field f = DQUOTE # concat (map (\<lambda>c. if c = DQUOTE then [DQUOTE, DQUOTE] else [c]) f) @ [DQUOTE]"

definition write_field :: "ustring \<Rightarrow> ustring" where
  "write_field f = (if needs_quotes f then quote_field f else f)"

fun join_fields :: "ustring list \<Rightarrow> ustring" where
  "join_fields [] = []"
| "join_fields [f] = f"
| "join_fields (f # g # fs) = f @ COMMA # join_fields (g # fs)"

text \<open>\<^verbatim>\<open>writer.writerow(row)\<close>; a row of one empty field is written as two quotes.\<close>

definition writerow :: "ustring list \<Rightarrow> ustring" where
  "writerow row = (if row = [[]] then [DQUOTE, DQUOTE] else join_fields (map write_field row)) @ [CR, LF]"

text \<open>
  \<^verbatim>\<open>export_to_csv\<close> gives the text written to the file. \<^verbatim>\<open>sorted\<close> compares the
  items of a dictionary as pairs, and the keys of a dictionary differ, so the order is
  that of the keys; the writer turns the employee key into \<^verbatim>\<open>str(emp_id)\<close>.
\<close>

definition key_str :: "tracker \<Rightarrow> int \<Rightarrow> string" where
  "key_str t emp_id = (if emp_id = 1 \<and> key_True t then ''True'' else str_int emp_id)"

definition export_rows :: "tracker \<Rightarrow> ustring list list" where
  "export_rows t =
     concat (map (\<lambda>(emp_id, recs). map (\<lambda>(date, status). [ustr (key_str t emp_id), ustr date, ustr status]) (sort_key fst recs))
                 (sort_key fst (records t)))"

definition export_to_csv :: "tracker \<Rightarrow> ustring" where
  "export_to_csv t =
     writerow [ustr ''Employee_ID'', ustr ''Date'', ustr ''Status''] @ concat (map writerow (export_rows t))"

subsection \<open>Reading: text mode, \<^verbatim>\<open>csv.reader\<close>, \<^verbatim>\<open>csv.DictReader\<close>\<close>

text \<open>
  \<^verbatim>\<open>open(filepath, 'r')\<close> translates \<^verbatim>\<open>\r\n\<close> and \<^verbatim>\<open>\r\<close> to \<^verbatim>\<open>\n\<close>; iterating
  over the file gives its lines, each with its \<^verbatim>\<open>\n\<close>.
\<close>

fun universal_newlines :: "ustring \<Rightarrow> ustring" where
  "universal_newlines [] = []"
| "universal_newlines [c] = [if c = CR then LF else c]"
| "universal_newlines (c # d # cs) =
     (if c = CR \<and> d = LF then LF # universal_newlines cs
      else if c = CR then LF # universal_newlines (d # cs)
      else c # universal_newlines (d # cs))"

fun file_lines :: "ustring \<Rightarrow> ustring list" where
  "file_lines [] = []"
| "file_lines (c # cs) =
     (if c = LF then [LF] # file_lines cs
      else (case file_lines cs of [] \<Rightarrow> [[c]] | l # ls \<Rightarrow> (c # l) # ls))"

text \<open>
  The reader's state machine (\<^verbatim>\<open>parse_process_char\<close> of the C module); \<open>None\<close> is
  the end-of-line mark that the reader feeds after each line. The states of the escape
  character do not occur in this dialect.
\<close>

datatype parser_state =
  START_RECORD | START_FIELD | IN_FIELD | IN_QUOTED_FIELD | QUOTE_IN_QUOTED_FIELD | EAT_CRNL

text \<open>The reader object: \<open>row_fields\<close> is its list \<^verbatim>\<open>fields\<close>.\<close>

record reader =
  state :: parser_state
  field :: ustring
  row_fields :: "ustring list"

definition parse_reset :: reader where
  "parse_reset = \<lparr>state = START_RECORD, field = [], row_fields = []\<rparr>"

definition parse_save_field :: "reader \<Rightarrow> reader" where
  "parse_save_field r = r\<lparr>row_fields := row_fields r @ [field r], field := []\<rparr>"

definition parse_add_char :: "nat \<Rightarrow> reader \<Rightarrow> reader" where
  "parse_add_char c r = r\<lparr>field := field r @ [c]\<rparr>"

definition end_of_record :: "nat option \<Rightarrow> reader \<Rightarrow> reader" where
  "end_of_record c r = (parse_save_field r)\<lparr>state := (if c = None then START_RECORD else EAT_CRNL)\<rparr>"

definition start_field :: "nat option \<Rightarrow> reader \<Rightarrow> reader" where
  "start_field c r =
     (case c of
        None \<Rightarrow> end_of_record c r
      | Some ch \<Rightarrow>
          if ch = LF \<or> ch = CR then end_of_record c r
          else if ch = DQUOTE then r\<lparr>state := IN_QUOTED_FIELD\<rparr>
          else if ch = COMMA then parse_save_field r
          else (parse_add_char ch r)\<lparr>state := IN_FIELD\<rparr>)"

definition parse_process_char :: "nat option \<Rightarrow> reader \<Rightarrow> error + reader" where
  "parse_process_char c r =
     (case state r of
        START_RECORD \<Rightarrow>
          (case c of
             None \<Rightarrow> Inr r
           | Some ch \<Rightarrow> if ch = LF \<or> ch = CR then Inr (r\<lparr>state := EAT_CRNL\<rparr>)
                       else Inr (start_field c (r\<lparr>state := START_FIELD\<rparr>)))
      | START_FIELD \<Rightarrow> Inr (start_field c r)
      | IN_FIELD \<Rightarrow>
          (case c of
             None \<Rightarrow> Inr (end_of_record c r)
           | Some ch \<Rightarrow> if ch = LF \<or> ch = CR then Inr (end_of_record c r)
                       else if ch = COMMA then Inr ((parse_save_field r)\<lparr>state := START_FIELD\<rparr>)
                       else Inr (parse_add_char ch r))
      | IN_QUOTED_FIELD \<Rightarrow>
          (case c of
             None \<Rightarrow> Inr r
           | Some ch \<Rightarrow> if ch = DQUOTE then Inr (r\<lparr>state := QUOTE_IN_QUOTED_FIELD\<rparr>)
                       else Inr (parse_add_char ch r))
      | QUOTE_IN_QUOTED_FIELD \<Rightarrow>
          (case c of
             None \<Rightarrow> Inr (end_of_record c r)
           | Some ch \<Rightarrow> if ch = DQUOTE then Inr ((parse_add_char ch r)\<lparr>state := IN_QUOTED_FIELD\<rparr>)
                       else if ch = COMMA then Inr ((parse_save_field r)\<lparr>state := START_FIELD\<rparr>)
                       else if ch = LF \<or> ch = CR then Inr (end_of_record c r)
                       else Inr ((parse_add_char ch r)\<lparr>state := IN_FIELD\<rparr>))
      | EAT_CRNL \<Rightarrow>
          (case c of
             None \<Rightarrow> Inr (r\<lparr>state := START_RECORD\<rparr>)
           | Some ch \<Rightarrow> if ch = LF \<or> ch = CR then Inr r
                       else Inl (CsvError ''new-line character seen in unquoted field'')))"

fun parse_line :: "ustring \<Rightarrow> reader \<Rightarrow> error + reader" where
  "parse_line [] r = Inr r"
| "parse_line (c # cs) r =
     (case parse_process_char (Some c) r of Inl e \<Rightarrow> Inl e | Inr r' \<Rightarrow> parse_line cs r')"

text \<open>
  The rows that iterating over the reader gives, and the \<^verbatim>\<open>csv.Error\<close> that ends the
  iteration, if one does: a row is complete when the state is \<open>START_RECORD\<close> after a
  line, and the input may end inside a quoted field.
\<close>

fun reader_rows :: "reader \<Rightarrow> ustring list \<Rightarrow> ustring list list \<times> error option" where
  "reader_rows r [] =
     (if field r \<noteq> [] \<or> state r = IN_QUOTED_FIELD then ([row_fields (parse_save_field r)], None)
      else ([], None))"
| "reader_rows r (line # lines) =
     (case parse_line line r of
        Inl e \<Rightarrow> ([], Some e)
      | Inr r1 \<Rightarrow>
         (case parse_process_char None r1 of
            Inl e \<Rightarrow> ([], Some e)
          | Inr r2 \<Rightarrow>
             if state r2 = START_RECORD
             then (case reader_rows parse_reset lines of (rows, err) \<Rightarrow> (row_fields r2 # rows, err))
             else reader_rows r2 lines))"

definition csv_reader :: "ustring \<Rightarrow> ustring list list \<times> error option" where
  "csv_reader content = reader_rows parse_reset (file_lines (universal_newlines content))"

text \<open>
  \<^verbatim>\<open>csv.DictReader\<close>: the first row names the fields; an empty row is passed over; a
  row is zipped with the names, and a name that the row has no value for gets \<^verbatim>\<open>None\<close>.
  The entry that collects surplus values has the key \<^verbatim>\<open>None\<close>, which is no ustring.
\<close>

definition dict_row :: "ustring list \<Rightarrow> ustring list \<Rightarrow> (ustring \<times> pyval) list" where
  "dict_row fieldnames row =
     fold (\<lambda>k. AList.update k PyNone) (drop (length row) fieldnames)
       (fold (\<lambda>(k, v). AList.update k (PyStr v)) (zip fieldnames row) [])"

definition DictReader :: "ustring list list \<Rightarrow> (ustring \<times> pyval) list list" where
  "DictReader rows =
     (case rows of
        [] \<Rightarrow> []
      | fieldnames # rest \<Rightarrow> map (dict_row fieldnames) (filter (\<lambda>row. row \<noteq> []) rest))"

subsection \<open>\<^verbatim>\<open>import_from_csv\<close>\<close>

text \<open>\<^verbatim>\<open>row[key]\<close> and \<^verbatim>\<open>int(x)\<close>.\<close>

definition getitem :: "(ustring \<times> pyval) list \<Rightarrow> string \<Rightarrow> error + pyval" where
  "getitem row k = (case map_of row (ustr k) of None \<Rightarrow> Inl (KeyError k) | Some v \<Rightarrow> Inr v)"

definition int_of :: "pyval \<Rightarrow> error + int" where
  "int_of v =
     (case v of
        PyInt n \<Rightarrow> Inr n
      | PyBool b \<Rightarrow> Inr (if b then 1 else 0)
      | PyStr s \<Rightarrow> (case py_int s of
                     None \<Rightarrow> Inl (ValueError ''invalid literal for int() with base 10'')
                   | Some n \<Rightarrow> Inr n)
      | PyNone \<Rightarrow> Inl (TypeError ''int() argument must be a string, a bytes-like object or a real number'')
      | PyFloat q \<Rightarrow> Inr (if 0 \<le> q then \<lfloor>q\<rfloor> else \<lceil>q\<rceil>))"

text \<open>
  The body of the \<^verbatim>\<open>try\<close>: the arguments are evaluated from left to right, then
  \<open>add_record\<close> is called.
\<close>

definition import_row :: "(ustring \<times> pyval) list \<Rightarrow> tracker \<Rightarrow> (error + unit) \<times> tracker" where
  "import_row row t =
     (case getitem row ''Employee_ID'' of Inl e \<Rightarrow> (Inl e, t) | Inr v \<Rightarrow>
     (case int_of v of Inl e \<Rightarrow> (Inl e, t) | Inr n \<Rightarrow>
     (case getitem row ''Date'' of Inl e \<Rightarrow> (Inl e, t) | Inr date \<Rightarrow>
     (case getitem row ''Status'' of Inl e \<Rightarrow> (Inl e, t) | Inr status \<Rightarrow>
        add_record (PyInt n) date status t))))"

text \<open>\<^verbatim>\<open>except (ValueError, KeyError)\<close>\<close>

fun caught :: "error \<Rightarrow> bool" where
  "caught (ValueError m) = True"
| "caught (KeyError m) = True"
| "caught (TypeError m) = False"
| "caught (CsvError m) = False"

fun import_loop :: "(ustring \<times> pyval) list list \<Rightarrow> nat \<Rightarrow> tracker \<Rightarrow> (error + nat) \<times> tracker" where
  "import_loop [] count t = (Inr count, t)"
| "import_loop (row # rows) count t =
     (case import_row row t of
        (Inr u, t') \<Rightarrow> import_loop rows (count + 1) t'
      | (Inl e, t') \<Rightarrow> if caught e then import_loop rows count t' else (Inl e, t'))"

definition import_rows :: "ustring list list \<Rightarrow> tracker \<Rightarrow> (error + nat) \<times> tracker" where
  "import_rows rows t = import_loop (DictReader rows) 0 t"

text \<open>
  \<^verbatim>\<open>import_from_csv\<close> on the text of the file: the rows that the reader gives are
  imported, and an error of the reader ends the import after them.
\<close>

definition import_from_csv :: "ustring \<Rightarrow> tracker \<Rightarrow> (error + nat) \<times> tracker" where
  "import_from_csv content t =
     (case csv_reader content of (rows, err) \<Rightarrow>
       (case import_rows rows t of
          (Inl e, t') \<Rightarrow> (Inl e, t')
        | (Inr count, t') \<Rightarrow> (case err of None \<Rightarrow> (Inr count, t') | Some e \<Rightarrow> (Inl e, t'))))"

text \<open>The status that the store holds for an employee and a date, if any.\<close>

definition record_status :: "tracker \<Rightarrow> int \<Rightarrow> string \<Rightarrow> string option" where
  "record_status t emp_id date = (case get_records t emp_id of None \<Rightarrow> None | Some recs \<Rightarrow> map_of recs date)"

text \<open>The number of the records of an employee that have a given status.\<close>

definition status_count :: "tracker \<Rightarrow> int \<Rightarrow> string \<Rightarrow> nat" where
  "status_count t emp_id s =
     length (filter (\<lambda>(date, status). status = s) (case get_records t emp_id of None \<Rightarrow> [] | Some recs \<Rightarrow> recs))"

text \<open>Every status in the store is one of the three.\<close>

definition statuses_ok :: "tracker \<Rightarrow> bool" where
  "statuses_ok t =
     list_all (\<lambda>(emp_id, recs). list_all (\<lambda>(date, status). status \<in> set VALID_STATUSES) recs) (records t)"

section \<open>The stores that the operations can reach\<close>

inductive reachable :: "tracker \<Rightarrow> bool" where
  reachable_new: "reachable new_tracker"
| reachable_add: "reachable t \<Longrightarrow> reachable (snd (add_record emp_id date status t))"
| reachable_delete: "reachable t \<Longrightarrow> reachable (snd (delete_record emp_id date t))"
| reachable_import: "reachable t \<Longrightarrow> reachable (snd (import_from_csv content t))"

text \<open>What the specification asks of every store.\<close>

definition store_inv :: "tracker \<Rightarrow> bool" where
  "store_inv t =
     list_all (\<lambda>(emp_id, recs). 0 < emp_id \<and> recs \<noteq> []
                 \<and> list_all (\<lambda>(date, status). canonical_date date \<and> status \<in> set VALID_STATUSES) recs)
       (records t)"

text \<open>
  The strings that stand for a canonical date without being it: the month without its
  leading zero, the day without its leading zero or with a space in its place.
\<close>

fun lenient_forms :: "string \<Rightarrow> string list" where
  "lenient_forms [y1, y2, y3, y4, h1, m1, m2, h2, d1, d2] =
     concat (map (\<lambda>ms. map (\<lambda>ds. [y1, y2, y3, y4, h1] @ ms @ [h2] @ ds)
                   (if d1 = CHR ''0'' then [[d1, d2], [d2], [CHR '' '', d2]] else [[d1, d2]]))
       (if m1 = CHR ''0'' then [[m1, m2], [m2]] else [[m1, m2]]))"
| "lenient_forms _ = []"

text \<open>
  A digit that \<^verbatim>\<open>\d\<close> reads may be written in any script: a string is a variant of an
  ASCII string when it has the same characters, except that a digit among the first
  four characters (the year), or a last digit that follows a 1 or a 2 (the second digit
  of the days 10 to 29), may be any decimal digit of the same value.
\<close>

fun variant_from :: "nat \<Rightarrow> char \<Rightarrow> ustring \<Rightarrow> string \<Rightarrow> bool" where
  "variant_from i p [] [] = True"
| "variant_from i p (c # s) (a # f) =
     ((c = codepoint a
       \<or> ((i < 4 \<or> (f = [] \<and> (p = CHR ''1'' \<or> p = CHR ''2'')))
          \<and> is_digit a \<and> decimal c = Some (digit_val a)))
      \<and> variant_from (Suc i) a s f)"
| "variant_from i p [] (a # f) = False"
| "variant_from i p (c # s) [] = False"

definition variant_of :: "ustring \<Rightarrow> string \<Rightarrow> bool" where
  "variant_of s f = variant_from 0 (CHR ''-'') s f"

text \<open>The strings that are read as the canonical date \<open>k\<close>.\<close>

definition denotes :: "ustring \<Rightarrow> string \<Rightarrow> bool" where
  "denotes s k = (canonical_date k \<and> (\<exists>f\<in>set (lenient_forms k). variant_of s f))"

definition positive_int :: "pyval \<Rightarrow> bool" where
  "positive_int v = (case v of PyInt n \<Rightarrow> 0 < n | PyBool b \<Rightarrow> b | _ \<Rightarrow> False)"

text \<open>The integer that a value is as a key of the store: \<^verbatim>\<open>True\<close> is the key 1.\<close>

definition id_key :: "pyval \<Rightarrow> int" where
  "id_key v = (case v of PyInt n \<Rightarrow> n | PyBool b \<Rightarrow> (if b then 1 else 0) | _ \<Rightarrow> 0)"

definition accepted_date :: "pyval \<Rightarrow> bool" where
  "accepted_date v = (\<exists>s k. v = PyStr s \<and> denotes s k)"

definition known_status :: "pyval \<Rightarrow> bool" where
  "known_status v = (case v of PyStr x \<Rightarrow> x \<in> set (map ustr VALID_STATUSES) | _ \<Rightarrow> False)"

section \<open>Properties of the date and string functions\<close>

lemma of_char_digit_chr: "a < 10 \<Longrightarrow> (of_char (digit_chr a) :: nat) = 48 + a"
  by (simp add: digit_chr_def)

lemma digit_chr_eq_iff: "a < 10 \<Longrightarrow> (digit_chr a = c) = (48 + a = (of_char c :: nat))"
  by (metis of_char_digit_chr of_char_eq_iff)

lemma is_digit_digit_chr: "a < 10 \<Longrightarrow> is_digit (digit_chr a)"
  by (simp add: is_digit_def of_char_digit_chr)

lemma digit_val_digit_chr: "a < 10 \<Longrightarrow> digit_val (digit_chr a) = a"
  by (simp add: digit_val_def of_char_digit_chr)

lemma is_digitE: "is_digit c \<Longrightarrow> \<exists>a<10. c = digit_chr a"
  apply (rule exI[of _ "digit_val c"])
  apply (auto simp add: is_digit_def digit_val_def digit_chr_def)
  done

lemma str_nat_digit: "r < 10 \<Longrightarrow> str_nat r = [digit_chr r]"
  by (subst str_nat.simps) simp

lemma str_nat_step: "r < 10 \<Longrightarrow> 0 < q \<Longrightarrow> str_nat (10 * q + r) = str_nat q @ [digit_chr r]"
  by (subst str_nat.simps) simp

lemma str_nat_nonempty: "str_nat n \<noteq> []"
  by (subst str_nat.simps) simp

lemma digit_chr_0: "digit_chr 0 = CHR ''0''"
  by (simp add: digit_chr_eq_iff)

lemma zfill_one: "r < 10 \<Longrightarrow> zfill (Suc 0) r = [digit_chr r]"
  by (simp add: zfill_def str_nat_digit)

lemma zfill_step: "r < 10 \<Longrightarrow> zfill (Suc (Suc w)) (10 * q + r) = zfill (Suc w) q @ [digit_chr r]"
proof (cases "q = 0")
  case True
  assume "r < 10"
  then show ?thesis using True
    by (simp add: zfill_def str_nat_digit digit_chr_0 replicate_append_same)
next
  case False
  assume "r < 10"
  then show ?thesis using False by (simp add: zfill_def str_nat_step Suc_diff_le)
qed

lemma zfill_2: "a < 10 \<Longrightarrow> b < 10 \<Longrightarrow> zfill 2 (10 * a + b) = [digit_chr a, digit_chr b]"
  unfolding numeral_2_eq_2 by (simp add: zfill_step zfill_one)

lemma zfill_4: 
  assumes "a < 10" "b < 10" "c < 10" "d < 10"
  shows "zfill 4 (1000 * a + 100 * b + 10 * c + d) = [digit_chr a, digit_chr b, digit_chr c, digit_chr d]"
proof -
  have e: "1000 * a + 100 * b + 10 * c + d = 10 * (10 * (10 * a + b) + c) + d" by simp
  have f: "(4::nat) = Suc (Suc (Suc (Suc 0)))" by simp
  show ?thesis unfolding e f using assms
    by (simp only: zfill_step zfill_one append.simps)
qed

lemma canonical_date_shape:
  "canonical_date s \<Longrightarrow> \<exists>y1 y2 y3 y4 m1 m2 d1 d2. s = [y1, y2, y3, y4, CHR ''-'', m1, m2, CHR ''-'', d1, d2]"
  by (cases s rule: canonical_date.cases) simp_all

lemma days_in_month_le: "days_in_month y m \<le> 31"
  by (simp add: days_in_month_def)

lemma isoformat_digits:
  assumes dg: "a < 10" "b < 10" "c < 10" "d < 10" "e < 10" "f < 10" "g < 10" "h < 10"
  shows "isoformat (1000 * a + 100 * b + 10 * c + d, 10 * e + f, 10 * g + h)
         = [digit_chr a, digit_chr b, digit_chr c, digit_chr d, CHR ''-'',
            digit_chr e, digit_chr f, CHR ''-'', digit_chr g, digit_chr h]"
  using dg by (simp add: isoformat_def zfill_4 zfill_2)

lemma is_digit_conv: "is_digit c \<Longrightarrow> digit_val c < 10 \<and> digit_chr (digit_val c) = c"
  by (auto simp add: is_digit_def digit_val_def digit_chr_def)

lemma digits_of_2: "m \<le> 99 \<Longrightarrow> \<exists>f g. f < 10 \<and> g < 10 \<and> m = 10 * f + (g::nat)"
  apply (rule exI[of _ "m div 10"])
  apply (rule exI[of _ "m mod 10"])
  apply arith
  done
lemma digits_of_4: "y \<le> 9999 \<Longrightarrow> \<exists>a b c e. a < 10 \<and> b < 10 \<and> c < 10 \<and> e < 10 \<and> y = 1000 * a + 100 * b + 10 * c + (e::nat)"
proof -
  assume "y \<le> 9999"
  then have "y div 10 \<le> 999" by simp
  then have "y div 10 div 10 \<le> 99" by simp
  from digits_of_2[OF this] obtain a b where ab: "a < 10" "b < 10" "y div 10 div 10 = 10 * a + b" by blast
  have "y = 10 * (10 * (y div 10 div 10) + y div 10 mod 10) + y mod 10" by simp
  then have "y = 1000 * a + 100 * b + 10 * (y div 10 mod 10) + y mod 10" unfolding ab(3) by simp
  moreover have "y div 10 mod 10 < 10" "y mod 10 < 10" by simp_all
  ultimately show ?thesis using ab by blast
qed

lemma is_digit_0: "is_digit (CHR ''0'')" and digit_val_0: "digit_val (CHR ''0'') = 0"
  by (simp_all add: is_digit_def digit_val_def)

lemma digit_val_lt: "is_digit c \<Longrightarrow> digit_val c < 10"
  by (auto simp add: is_digit_def digit_val_def)

lemma isoformat_chars:
  assumes "is_digit c1" "is_digit c2" "is_digit c3" "is_digit c4"
    "is_digit m1" "is_digit m2" "is_digit d1" "is_digit d2"
  shows "isoformat (1000 * digit_val c1 + 100 * digit_val c2 + 10 * digit_val c3 + digit_val c4,
                    10 * digit_val m1 + digit_val m2, 10 * digit_val d1 + digit_val d2)
         = [c1, c2, c3, c4, CHR ''-'', m1, m2, CHR ''-'', d1, d2]"
  using isoformat_digits[OF assms[THEN digit_val_lt]] assms[THEN is_digit_conv] by simp

subsection \<open>Code points and decimal digits\<close>

lemma codepoint_digit_chr: "a < 10 \<Longrightarrow> codepoint (digit_chr a) = 48 + a"
  by (simp add: codepoint_def of_char_digit_chr)

lemma codepoint_eq_iff: "codepoint a = codepoint b \<longleftrightarrow> a = b"
  by (simp add: codepoint_def)

lemma codepoint_digit: "is_digit a \<Longrightarrow> codepoint a = 48 + digit_val a"
  by (simp add: codepoint_def is_digit_def digit_val_def)

lemma decimal_lt: "decimal c = Some v \<Longrightarrow> v < 10"
  by (auto simp add: decimal_def find_Some_iff split: option.splits)

lemma decimal_ascii: "a < 10 \<Longrightarrow> decimal (48 + a) = Some a"
  by (simp add: decimal_def decimal_zeros_def)

lemma decimal_zeros_ge: "\<forall>z\<in>set decimal_zeros. 48 \<le> z"
  by (simp add: decimal_zeros_def)

lemma decimal_below: "c < 48 \<Longrightarrow> decimal c = None"
proof -
  assume "c < 48"
  then have "find (\<lambda>z. z \<le> c \<and> c < z + 10) decimal_zeros = None"
    using decimal_zeros_ge by (auto simp add: find_None_iff)
  then show ?thesis by (simp add: decimal_def)
qed

lemma decimal_codepoint: "is_digit a \<Longrightarrow> decimal (codepoint a) = Some (digit_val a)"
  using decimal_ascii[of "digit_val a"] by (simp add: codepoint_digit digit_val_lt)

lemma digit_value_decimal: "decimal c = Some v \<Longrightarrow> digit_value c = v"
  by (simp add: digit_value_def)

lemma nonzero_digit_ascii: "a < 10 \<Longrightarrow> nonzero_digit (48 + a) = (1 \<le> a)"
  by (auto simp add: nonzero_digit_def)

lemma nonzero_digitE: "nonzero_digit c \<Longrightarrow> \<exists>a. 1 \<le> a \<and> a < 10 \<and> c = 48 + a"
  by (rule exI[of _ "c - 48"]) (auto simp add: nonzero_digit_def)

section \<open>What \<open>strptime\<close> reads\<close>

lemma cp_values:
  "codepoint CHR ''0'' = 48" "codepoint CHR ''1'' = 49" "codepoint CHR ''2'' = 50"
  "codepoint CHR ''3'' = 51" "codepoint CHR ''-'' = 45" "codepoint CHR '' '' = 32"
  by (simp_all add: codepoint_def)

lemma match_m_two:
  assumes "e < 10" "f < 10" "1 \<le> 10 * e + f" "10 * e + f \<le> 12"
  shows "match_m ((48 + e) # (48 + f) # rest) = Some (10 * e + f, rest)"
proof -
  have "e = 0 \<and> 1 \<le> f \<or> e = 1 \<and> f \<le> 2" using assms by arith
  then show ?thesis using assms by (auto simp add: cp_values nonzero_digit_def)
qed

lemma match_m_one:
  assumes "1 \<le> f" "f < 10"
  shows "match_m ((48 + f) # 45 # rest) = Some (f, 45 # rest)"
  using assms by (auto simp add: cp_values nonzero_digit_def)

lemma match_d_two:
  assumes "g < 10" "decimal c = Some h" "1 \<le> 10 * g + h" "10 * g + h \<le> 31"
    and "c = 48 + h \<or> g = 1 \<or> g = 2"
  shows "match_d [48 + g, c] = Some (10 * g + h, [])"
proof -
  have h: "h < 10" using assms(2) by (rule decimal_lt)
  have dv: "digit_value c = h" using assms(2) by (rule digit_value_decimal)
  consider "g = 0" | "g = 1 \<or> g = 2" | "g = 3" using assms(1,4) by arith
  then show ?thesis
  proof cases
    case 1
    then have "c = 48 + h" "1 \<le> h" using assms(3,5) by auto
    then show ?thesis using 1 h by (simp add: cp_values nonzero_digit_def)
  next
    case 2
    then show ?thesis using assms(2) dv by (auto simp add: cp_values)
  next
    case 3
    then have "c = 48 + h" "h \<le> 1" using assms(4,5) by auto
    then show ?thesis using 3 by (auto simp add: cp_values)
  qed
qed

lemma match_d_one:
  assumes "1 \<le> h" "h < 10"
  shows "match_d [48 + h] = Some (h, [])"
  using assms by (simp add: nonzero_digit_def)

lemma match_d_space:
  assumes "1 \<le> h" "h < 10"
  shows "match_d [32, 48 + h] = Some (h, [])"
  using assms by (simp add: cp_values nonzero_digit_def)

lemma strptime_parts:
  assumes "decimal c1 = Some v1" "decimal c2 = Some v2" "decimal c3 = Some v3" "decimal c4 = Some v4"
    and "match_m (sm @ 45 # sd) = Some (m, 45 # sd)"
    and "match_d sd = Some (d, [])"
    and "valid_ymd (1000 * v1 + 100 * v2 + 10 * v3 + v4) m d"
  shows "strptime (c1 # c2 # c3 # c4 # 45 # sm @ 45 # sd)
         = Some (1000 * v1 + 100 * v2 + 10 * v3 + v4, m, d)"
  unfolding strptime_def using assms
  by (simp add: digit_value_decimal cp_values del: match_m.simps match_d.simps)

lemma match_Y_cases:
  assumes "match_Y s = Some (y, r)"
  shows "\<exists>c1 c2 c3 c4 v1 v2 v3 v4. s = c1 # c2 # c3 # c4 # r
           \<and> decimal c1 = Some v1 \<and> decimal c2 = Some v2 \<and> decimal c3 = Some v3 \<and> decimal c4 = Some v4
           \<and> y = 1000 * v1 + 100 * v2 + 10 * v3 + v4"
  using assms by (cases s rule: match_Y.cases) (auto simp add: digit_value_def split: if_splits)

lemma match_hyphen_cases: "match_hyphen s = Some r \<Longrightarrow> s = 45 # r"
  by (cases s) (auto simp add: cp_values split: if_splits)

lemma match_m_cases:
  assumes "match_m r = Some (m, r')"
  shows "\<exists>e f. e < 10 \<and> f < 10 \<and> m = 10 * e + f \<and> 1 \<le> m \<and> m \<le> 12
           \<and> (r = (48 + e) # (48 + f) # r' \<or> (e = 0 \<and> r = (48 + f) # r'))"
proof (cases r rule: match_m.cases)
  case 1
  then show ?thesis using assms by simp
next
  case (2 a)
  then have n: "nonzero_digit a" and m: "m = a - 48" and r': "r' = []"
    using assms by (auto split: if_splits)
  from nonzero_digitE[OF n] obtain f where f: "1 \<le> f" "f < 10" "a = 48 + f" by blast
  show ?thesis using 2 m r' f by (intro exI[of _ 0] exI[of _ f]) simp
next
  case (3 a b rest)
  consider (two) e f where "e < 10" "f < 10" "a = 48 + e" "b = 48 + f" "m = 10 * e + f" "1 \<le> m" "m \<le> 12" "r' = rest"
    | (one) "nonzero_digit a" "m = a - 48" "r' = b # rest"
  proof -
    have "(a = 49 \<and> (b = 48 \<or> b = 49 \<or> b = 50) \<and> m = 10 + (b - 48) \<and> r' = rest)
        \<or> (a = 48 \<and> nonzero_digit b \<and> m = b - 48 \<and> r' = rest)
        \<or> (nonzero_digit a \<and> m = a - 48 \<and> r' = b # rest)"
      using assms 3 by (auto simp add: cp_values split: if_splits)
    then show ?thesis
    proof (elim disjE conjE)
      assume "a = 49" "b = 48" "m = 10 + (b - 48)" "r' = rest"
      then show ?thesis using two[of 1 0] by simp
    next
      assume "a = 49" "b = 49" "m = 10 + (b - 48)" "r' = rest"
      then show ?thesis using two[of 1 1] by simp
    next
      assume "a = 49" "b = 50" "m = 10 + (b - 48)" "r' = rest"
      then show ?thesis using two[of 1 2] by simp
    next
      assume a: "a = 48" "nonzero_digit b" "m = b - 48" "r' = rest"
      from nonzero_digitE[OF a(2)] obtain f where "1 \<le> f" "f < 10" "b = 48 + f" by blast
      then show ?thesis using a two[of 0 f] by simp
    next
      assume "nonzero_digit a" "m = a - 48" "r' = b # rest"
      then show ?thesis using one by simp
    qed
  qed
  then show ?thesis
  proof cases
    case two
    then show ?thesis using 3 by (intro exI[of _ e] exI[of _ f]) simp
  next
    case one
    from nonzero_digitE[OF one(1)] obtain f where f: "1 \<le> f" "f < 10" "a = 48 + f" by blast
    show ?thesis using 3 one f by (intro exI[of _ 0] exI[of _ f]) simp
  qed
qed

lemma match_d_cases:
  assumes "match_d r = Some (d, [])"
  shows "\<exists>g h c. g < 10 \<and> h < 10 \<and> d = 10 * g + h \<and> 1 \<le> d \<and> decimal c = Some h
           \<and> ((r = [48 + g, c] \<and> (c = 48 + h \<or> g = 1 \<or> g = 2))
               \<or> (g = 0 \<and> c = 48 + h \<and> (r = [c] \<or> r = [32, c])))"
proof (cases r rule: match_d.cases)
  case 1
  then show ?thesis using assms by simp
next
  case (2 a)
  then have n: "nonzero_digit a" and d: "d = a - 48" using assms by (auto split: if_splits)
  from nonzero_digitE[OF n] obtain h where h: "1 \<le> h" "h < 10" "a = 48 + h" by blast
  show ?thesis using 2 d h decimal_ascii[of h]
    by (intro exI[of _ 0] exI[of _ h] exI[of _ a]) simp
next
  case (3 a b rest)
  have "(a = 51 \<and> (b = 48 \<or> b = 49) \<and> d = 30 + (b - 48) \<and> rest = [])
      \<or> ((a = 49 \<or> a = 50) \<and> decimal b \<noteq> None \<and> d = 10 * (a - 48) + digit_value b \<and> rest = [])
      \<or> (a = 48 \<and> nonzero_digit b \<and> d = b - 48 \<and> rest = [])
      \<or> (a = 32 \<and> nonzero_digit b \<and> d = b - 48 \<and> rest = [])"
    using assms 3 by (auto simp add: cp_values split: if_splits)
  then show ?thesis
  proof (elim disjE conjE)
    assume a: "a = 51" "b = 48" "d = 30 + (b - 48)" "rest = []"
    show ?thesis using 3 a decimal_ascii[of 0]
      by (intro exI[of _ 3] exI[of _ 0] exI[of _ b]) simp
  next
    assume a: "a = 51" "b = 49" "d = 30 + (b - 48)" "rest = []"
    show ?thesis using 3 a decimal_ascii[of 1]
      by (intro exI[of _ 3] exI[of _ 1] exI[of _ b]) simp
  next
    assume a: "a = 49" "decimal b \<noteq> None" "d = 10 * (a - 48) + digit_value b" "rest = []"
    then obtain h where h: "decimal b = Some h" by auto
    show ?thesis using 3 a h decimal_lt[OF h]
      by (intro exI[of _ 1] exI[of _ h] exI[of _ b]) (simp add: digit_value_def)
  next
    assume a: "a = 50" "decimal b \<noteq> None" "d = 10 * (a - 48) + digit_value b" "rest = []"
    then obtain h where h: "decimal b = Some h" by auto
    show ?thesis using 3 a h decimal_lt[OF h]
      by (intro exI[of _ 2] exI[of _ h] exI[of _ b]) (simp add: digit_value_def)
  next
    assume a: "a = 48" "nonzero_digit b" "d = b - 48" "rest = []"
    from nonzero_digitE[OF a(2)] obtain h where h: "1 \<le> h" "h < 10" "b = 48 + h" by blast
    show ?thesis using 3 a h decimal_ascii[of h]
      by (intro exI[of _ 0] exI[of _ h] exI[of _ b]) simp
  next
    assume a: "a = 32" "nonzero_digit b" "d = b - 48" "rest = []"
    from nonzero_digitE[OF a(2)] obtain h where h: "1 \<le> h" "h < 10" "b = 48 + h" by blast
    show ?thesis using 3 a h decimal_ascii[of h]
      by (intro exI[of _ 0] exI[of _ h] exI[of _ b]) simp
  qed
qed

subsection \<open>Variants\<close>

lemma variant_from_Cons:
  "variant_from i p s (a # f) \<longleftrightarrow>
     (\<exists>c s'. s = c # s'
        \<and> (c = codepoint a \<or> ((i < 4 \<or> (f = [] \<and> (p = CHR ''1'' \<or> p = CHR ''2'')))
              \<and> is_digit a \<and> decimal c = Some (digit_val a)))
        \<and> variant_from (Suc i) a s' f)"
  by (cases s) simp_all

lemma variant_from_Nil: "variant_from i p s [] \<longleftrightarrow> s = []"
  by (cases s) simp_all

lemma variant_year_char:
  assumes "is_digit a" "i < 4"
  shows "variant_from i p s (a # f) \<longleftrightarrow>
     (\<exists>c s'. s = c # s' \<and> decimal c = Some (digit_val a) \<and> variant_from (Suc i) a s' f)"
  using assms decimal_codepoint[OF assms(1)] by (auto simp add: variant_from_Cons)

lemma variant_exact:
  assumes "4 \<le> i" "f \<noteq> []"
  shows "variant_from i p s (a # f) \<longleftrightarrow> (\<exists>s'. s = codepoint a # s' \<and> variant_from (Suc i) a s' f)"
  using assms by (auto simp add: variant_from_Cons)

lemma not_digit_chars: "\<not> is_digit (CHR ''-'')" "\<not> is_digit (CHR '' '')"
  by (simp_all add: is_digit_def)

lemma variant_nondigit:
  assumes "\<not> is_digit a"
  shows "variant_from i p s (a # f) \<longleftrightarrow> (\<exists>s'. s = codepoint a # s' \<and> variant_from (Suc i) a s' f)"
  using assms by (auto simp add: variant_from_Cons)

lemma variant_last:
  assumes "4 \<le> i"
  shows "variant_from i p s [a] \<longleftrightarrow>
     (\<exists>c. s = [c] \<and> (c = codepoint a
        \<or> ((p = CHR ''1'' \<or> p = CHR ''2'') \<and> is_digit a \<and> decimal c = Some (digit_val a))))"
  using assms by (auto simp add: variant_from_Cons variant_from_Nil)

lemma variant_year:
  assumes "is_digit y1" "is_digit y2" "is_digit y3" "is_digit y4"
  shows "variant_of s (y1 # y2 # y3 # y4 # f) \<longleftrightarrow>
     (\<exists>c1 c2 c3 c4 s'. s = c1 # c2 # c3 # c4 # s'
        \<and> decimal c1 = Some (digit_val y1) \<and> decimal c2 = Some (digit_val y2)
        \<and> decimal c3 = Some (digit_val y3) \<and> decimal c4 = Some (digit_val y4)
        \<and> variant_from 4 y4 s' f)"
proof -
  have n: "(4::nat) = Suc (Suc (Suc (Suc 0)))" by simp
  show ?thesis
    unfolding variant_of_def n
    using assms by (simp add: variant_year_char) blast
qed

lemma variant_month:
  assumes v: "variant_from 5 (CHR ''-'') s2 (ms @ CHR ''-'' # ds)"
    and dg: "is_digit m1" "is_digit m2"
    and mb: "1 \<le> 10 * digit_val m1 + digit_val m2" "10 * digit_val m1 + digit_val m2 \<le> 12"
    and ms: "ms = [m1, m2] \<or> (m1 = CHR ''0'' \<and> ms = [m2])"
  shows "\<exists>sm s3 j. s2 = sm @ 45 # s3
           \<and> match_m (sm @ 45 # s3) = Some (10 * digit_val m1 + digit_val m2, 45 # s3)
           \<and> 4 \<le> j \<and> variant_from j (CHR ''-'') s3 ds"
  using ms
proof
  assume e: "ms = [m1, m2]"
  from v obtain s3 where s2: "s2 = [codepoint m1, codepoint m2] @ 45 # s3"
    and r: "variant_from 8 (CHR ''-'') s3 ds"
    unfolding e by (auto simp add: variant_exact variant_nondigit not_digit_chars cp_values)
  have "match_m ((48 + digit_val m1) # (48 + digit_val m2) # 45 # s3)
        = Some (10 * digit_val m1 + digit_val m2, 45 # s3)"
    using dg mb by (intro match_m_two) (simp_all add: digit_val_lt)
  then have "match_m ([codepoint m1, codepoint m2] @ 45 # s3)
        = Some (10 * digit_val m1 + digit_val m2, 45 # s3)"
    using dg by (simp add: codepoint_digit del: match_m.simps)
  then show ?thesis using s2 r by (intro exI[of _ "[codepoint m1, codepoint m2]"] exI[of _ s3] exI[of _ 8]) simp
next
  assume e: "m1 = CHR ''0'' \<and> ms = [m2]"
  from v obtain s3 where s2: "s2 = [codepoint m2] @ 45 # s3"
    and r: "variant_from 7 (CHR ''-'') s3 ds"
    using e by (auto simp add: variant_exact variant_nondigit not_digit_chars cp_values)
  have m: "10 * digit_val m1 + digit_val m2 = digit_val m2" using e by (simp add: digit_val_0)
  have "match_m ((48 + digit_val m2) # 45 # s3) = Some (digit_val m2, 45 # s3)"
    using dg mb m by (intro match_m_one) (simp_all add: digit_val_lt)
  then have "match_m ([codepoint m2] @ 45 # s3) = Some (10 * digit_val m1 + digit_val m2, 45 # s3)"
    using dg m by (simp add: codepoint_digit del: match_m.simps)
  then show ?thesis using s2 r by (intro exI[of _ "[codepoint m2]"] exI[of _ s3] exI[of _ 7]) simp
qed

lemma variant_day:
  assumes v: "variant_from j (CHR ''-'') s3 ds" and j: "4 \<le> j"
    and dg: "is_digit d1" "is_digit d2"
    and db: "1 \<le> 10 * digit_val d1 + digit_val d2" "10 * digit_val d1 + digit_val d2 \<le> 31"
    and ds: "ds = [d1, d2] \<or> (d1 = CHR ''0'' \<and> (ds = [d2] \<or> ds = [CHR '' '', d2]))"
  shows "match_d s3 = Some (10 * digit_val d1 + digit_val d2, [])"
proof -
  have lt: "digit_val d1 < 10" "digit_val d2 < 10" using dg by (simp_all add: digit_val_lt)
  consider (two) "ds = [d1, d2]" | (one) "d1 = CHR ''0''" "ds = [d2]"
    | (sp) "d1 = CHR ''0''" "ds = [CHR '' '', d2]"
    using ds by blast
  then show ?thesis
  proof cases
    case two
    from v j obtain c where s3: "s3 = [codepoint d1, c]"
      and c: "c = codepoint d2 \<or> ((d1 = CHR ''1'' \<or> d1 = CHR ''2'') \<and> decimal c = Some (digit_val d2))"
      unfolding two by (auto simp add: variant_exact variant_last)
    have dc: "decimal c = Some (digit_val d2)" using c decimal_codepoint[OF dg(2)] by auto
    have "c = 48 + digit_val d2 \<or> digit_val d1 = 1 \<or> digit_val d1 = 2"
      using c dg by (auto simp add: codepoint_digit digit_val_def)
    then have "match_d [48 + digit_val d1, c] = Some (10 * digit_val d1 + digit_val d2, [])"
      using lt dc db by (intro match_d_two) simp_all
    then show ?thesis using s3 dg by (simp add: codepoint_digit del: match_d.simps)
  next
    case one
    from v j have s3: "s3 = [codepoint d2]"
      unfolding one by (auto simp add: variant_last)
    have d: "10 * digit_val d1 + digit_val d2 = digit_val d2" using one by (simp add: digit_val_0)
    have "match_d [48 + digit_val d2] = Some (digit_val d2, [])"
      using db d lt by (intro match_d_one) simp_all
    then show ?thesis using s3 dg d by (simp add: codepoint_digit del: match_d.simps)
  next
    case sp
    from v j have s3: "s3 = [32, codepoint d2]"
      unfolding sp by (auto simp add: variant_nondigit not_digit_chars variant_last cp_values)
    have d: "10 * digit_val d1 + digit_val d2 = digit_val d2" using sp by (simp add: digit_val_0)
    have "match_d [32, 48 + digit_val d2] = Some (digit_val d2, [])"
      using db d lt by (intro match_d_space) simp_all
    then show ?thesis using s3 dg d by (simp add: codepoint_digit del: match_d.simps)
  qed
qed

section \<open>The date strings that are accepted\<close>

lemma valid_ymd_canonical:
  assumes v: "valid_ymd y m d"
  shows "canonical_date (isoformat (y, m, d))"
proof -
  have "d \<le> 31" using v days_in_month_le[of y m] by (simp add: valid_ymd_def)
  then have "d \<le> 99" by simp
  from digits_of_2[OF this] obtain h i where d: "h < 10" "i < 10" "d = 10 * h + i" by blast
  have "m \<le> 99" using v by (simp add: valid_ymd_def)
  from digits_of_2[OF this] obtain f g where m: "f < 10" "g < 10" "m = 10 * f + g" by blast
  have "y \<le> 9999" using v by (simp add: valid_ymd_def)
  from digits_of_4[OF this] obtain a b c e where
    y: "a < 10" "b < 10" "c < 10" "e < 10" "y = 1000 * a + 100 * b + 10 * c + e" by blast
  have "isoformat (y, m, d) = [digit_chr a, digit_chr b, digit_chr c, digit_chr e, CHR ''-'',
            digit_chr f, digit_chr g, CHR ''-'', digit_chr h, digit_chr i]"
    unfolding y(5) m(3) d(3) using y m d by (intro isoformat_digits)
  then show ?thesis
    using v y m d by (simp add: is_digit_digit_chr digit_val_digit_chr)
qed

lemma strptime_valid: "strptime s = Some (y, m, d) \<Longrightarrow> valid_ymd y m d"
  by (auto simp add: strptime_def split: option.splits if_splits)

lemma validate_date_Inr_canonical: "validate_date v = Inr k \<Longrightarrow> canonical_date k"
  by (auto simp add: validate_date_def valid_ymd_canonical split: pyval.splits option.splits dest!: strptime_valid)

lemma validate_date_Inl: "validate_date v = Inl e \<Longrightarrow> e = InvalidDateFormat"
  by (auto simp add: validate_date_def split: pyval.splits option.splits)

lemma in_concat_map2:
  "s \<in> set (concat (map (\<lambda>a. map (f a) B) A)) \<longleftrightarrow> (\<exists>a\<in>set A. \<exists>b\<in>set B. s = f a b)"
  by auto

lemma denotes_validate:
  assumes "denotes s k"
  shows "validate_date (PyStr s) = Inr k"
proof -
  from assms have ck: "canonical_date k" and "\<exists>f\<in>set (lenient_forms k). variant_of s f"
    by (simp_all add: denotes_def)
  then obtain f where fk: "f \<in> set (lenient_forms k)" and vf: "variant_of s f" by blast
  from canonical_date_shape[OF ck] obtain y1 y2 y3 y4 m1 m2 d1 d2 where
    k: "k = [y1, y2, y3, y4, CHR ''-'', m1, m2, CHR ''-'', d1, d2]" by blast
  define y where "y = 1000 * digit_val y1 + 100 * digit_val y2 + 10 * digit_val y3 + digit_val y4"
  define m where "m = 10 * digit_val m1 + digit_val m2"
  define d where "d = 10 * digit_val d1 + digit_val d2"
  have c: "is_digit y1" "is_digit y2" "is_digit y3" "is_digit y4"
      "is_digit m1" "is_digit m2" "is_digit d1" "is_digit d2"
    and v: "valid_ymd y m d"
    using ck unfolding k y_def m_def d_def by simp_all
  have mb: "1 \<le> m" "m \<le> 12" and db: "1 \<le> d" "d \<le> 31"
    using v days_in_month_le[of y m] by (simp_all add: valid_ymd_def)
  have "\<exists>ms\<in>set (if m1 = CHR ''0'' then [[m1, m2], [m2]] else [[m1, m2]]).
        \<exists>ds\<in>set (if d1 = CHR ''0'' then [[d1, d2], [d2], [CHR '' '', d2]] else [[d1, d2]]).
          f = [y1, y2, y3, y4, CHR ''-''] @ ms @ [CHR ''-''] @ ds"
    using fk unfolding k by (simp only: lenient_forms.simps in_concat_map2)
  then obtain ms ds where
    mem: "ms \<in> set (if m1 = CHR ''0'' then [[m1, m2], [m2]] else [[m1, m2]])"
      "ds \<in> set (if d1 = CHR ''0'' then [[d1, d2], [d2], [CHR '' '', d2]] else [[d1, d2]])"
    and f0: "f = [y1, y2, y3, y4, CHR ''-''] @ ms @ [CHR ''-''] @ ds"
    by blast
  have f: "f = y1 # y2 # y3 # y4 # CHR ''-'' # ms @ CHR ''-'' # ds"
    using f0 by simp
  have ms: "ms = [m1, m2] \<or> (m1 = CHR ''0'' \<and> ms = [m2])"
    using mem(1) by (simp split: if_splits)
  have ds: "ds = [d1, d2] \<or> (d1 = CHR ''0'' \<and> (ds = [d2] \<or> ds = [CHR '' '', d2]))"
    using mem(2) by (simp split: if_splits)
  from vf obtain c1 c2 c3 c4 s1 where
    s: "s = c1 # c2 # c3 # c4 # s1"
    and dc: "decimal c1 = Some (digit_val y1)" "decimal c2 = Some (digit_val y2)"
       "decimal c3 = Some (digit_val y3)" "decimal c4 = Some (digit_val y4)"
    and v1: "variant_from 4 y4 s1 (CHR ''-'' # ms @ CHR ''-'' # ds)"
    unfolding f variant_year[OF c(1-4)] by blast
  from v1 obtain s2 where s1: "s1 = 45 # s2"
    and v2: "variant_from 5 (CHR ''-'') s2 (ms @ CHR ''-'' # ds)"
    by (auto simp add: variant_nondigit not_digit_chars cp_values)
  from variant_month[OF v2 c(5,6) mb[unfolded m_def] ms] obtain sm s3 j where
    s2: "s2 = sm @ 45 # s3"
    and M: "match_m (sm @ 45 # s3) = Some (m, 45 # s3)"
    and j: "4 \<le> j" and v3: "variant_from j (CHR ''-'') s3 ds"
    unfolding m_def by blast
  have D: "match_d s3 = Some (d, [])"
    unfolding d_def using v3 j c(7,8) db[unfolded d_def] ds by (rule variant_day)
  have "strptime s = Some (y, m, d)"
    unfolding s s1 s2 y_def using dc M D v[unfolded y_def] by (rule strptime_parts)
  moreover have "isoformat (y, m, d) = k"
    unfolding y_def m_def d_def k using c by (rule isoformat_chars)
  ultimately show ?thesis by (simp add: validate_date_def)
qed

lemma strptime_denotes:
  assumes "strptime s = Some (y, m, d)"
  shows "denotes s (isoformat (y, m, d))"
proof -
  have v: "valid_ymd y m d" using assms by (rule strptime_valid)
  then have ck: "canonical_date (isoformat (y, m, d))" by (rule valid_ymd_canonical)
  obtain r1 r2 r3 r4 where
    Y: "match_Y s = Some (y, r1)" and h1: "match_hyphen r1 = Some r2"
    and M: "match_m r2 = Some (m, r3)" and h2: "match_hyphen r3 = Some r4"
    and D: "match_d r4 = Some (d, [])"
    using assms unfolding strptime_def
    by (auto split: option.splits if_splits)
  from match_Y_cases[OF Y] obtain c1 c2 c3 c4 v1 v2 v3 v4 where
    s: "s = c1 # c2 # c3 # c4 # r1"
    and dc: "decimal c1 = Some v1" "decimal c2 = Some v2" "decimal c3 = Some v3" "decimal c4 = Some v4"
    and y: "y = 1000 * v1 + 100 * v2 + 10 * v3 + v4" by blast
  have lt: "v1 < 10" "v2 < 10" "v3 < 10" "v4 < 10" using dc by (simp_all add: decimal_lt)
  from match_m_cases[OF M] obtain e f where
    ef: "e < 10" "f < 10" and m: "m = 10 * e + f"
    and r2: "r2 = (48 + e) # (48 + f) # r3 \<or> (e = 0 \<and> r2 = (48 + f) # r3)" by blast
  from match_d_cases[OF D] obtain g h c where
    gh: "g < 10" "h < 10" and d: "d = 10 * g + h" and dh: "decimal c = Some h"
    and r4: "(r4 = [48 + g, c] \<and> (c = 48 + h \<or> g = 1 \<or> g = 2))
               \<or> (g = 0 \<and> c = 48 + h \<and> (r4 = [c] \<or> r4 = [32, c]))" by blast
  have k: "isoformat (y, m, d) = [digit_chr v1, digit_chr v2, digit_chr v3, digit_chr v4, CHR ''-'',
            digit_chr e, digit_chr f, CHR ''-'', digit_chr g, digit_chr h]"
    unfolding y m d using lt ef gh by (rule isoformat_digits)
  have r1: "r1 = 45 # r2" and r3: "r3 = 45 # r4"
    using match_hyphen_cases[OF h1] match_hyphen_cases[OF h2] by simp_all
  define ms where "ms = (if r2 = (48 + e) # (48 + f) # r3 then [digit_chr e, digit_chr f] else [digit_chr f])"
  define ds where "ds = (if r4 = [48 + g, c] then [digit_chr g, digit_chr h]
                         else if r4 = [c] then [digit_chr h] else [CHR '' '', digit_chr h])"
  define fm where "fm = [digit_chr v1, digit_chr v2, digit_chr v3, digit_chr v4, CHR ''-''] @ ms @ [CHR ''-''] @ ds"
  have e0: "(digit_chr e = CHR ''0'') = (e = 0)" and g0: "(digit_chr g = CHR ''0'') = (g = 0)"
    using ef gh by (simp_all add: digit_chr_eq_iff)
  have msm: "ms \<in> set (if digit_chr e = CHR ''0'' then [[digit_chr e, digit_chr f], [digit_chr f]]
                        else [[digit_chr e, digit_chr f]])"
    using r2 unfolding ms_def e0 by auto
  have dsm: "ds \<in> set (if digit_chr g = CHR ''0'' then [[digit_chr g, digit_chr h], [digit_chr h], [CHR '' '', digit_chr h]]
                        else [[digit_chr g, digit_chr h]])"
    using r4 unfolding ds_def g0 by auto
  have mem: "fm \<in> set (lenient_forms (isoformat (y, m, d)))"
    unfolding k fm_def by (simp only: lenient_forms.simps in_concat_map2) (use msm dsm in blast)
  have cpd: "\<And>a. a < 10 \<Longrightarrow> codepoint (digit_chr a) = 48 + a" by (rule codepoint_digit_chr)
  have dig: "\<And>a. a < 10 \<Longrightarrow> is_digit (digit_chr a)" "\<And>a. a < 10 \<Longrightarrow> digit_val (digit_chr a) = a"
    by (simp_all add: is_digit_digit_chr digit_val_digit_chr)
  have g12: "g = 1 \<or> g = 2 \<Longrightarrow> digit_chr g = CHR ''1'' \<or> digit_chr g = CHR ''2''"
    by (auto simp add: digit_chr_eq_iff)
  have vd: "variant_from j p r4 ds" for j p
  proof -
    consider (a) "r4 = [48 + g, c]" "c = 48 + h"
      | (b) "r4 = [48 + g, c]" "g = 1 \<or> g = 2"
      | (c) "g = 0" "c = 48 + h" "r4 = [c]"
      | (d) "g = 0" "c = 48 + h" "r4 = [32, c]"
      using r4 by blast
    then show ?thesis
    proof cases
      case a
      then show ?thesis unfolding ds_def using gh by (simp add: cpd)
    next
      case b
      then show ?thesis unfolding ds_def using gh dh g12 by (simp add: cpd dig)
    next
      case c
      then show ?thesis unfolding ds_def using gh by (simp add: cpd)
    next
      case d
      then show ?thesis unfolding ds_def using gh by (simp add: cpd cp_values)
    qed
  qed
  have vm: "variant_from j p r2 (ms @ CHR ''-'' # ds)" for j p
  proof (cases "r2 = (48 + e) # (48 + f) # r3")
    case True
    then show ?thesis unfolding ms_def r3 using ef vd by (simp add: cpd cp_values)
  next
    case False
    then have "r2 = (48 + f) # r3" using r2 by blast
    then show ?thesis unfolding ms_def r3 using ef vd False by (simp add: cpd cp_values)
  qed
  have "variant_of s fm"
    unfolding variant_of_def fm_def s r1 using dc lt vm
    by (simp add: dig cp_values)
  then show ?thesis using ck mem unfolding denotes_def by blast
qed

lemma validate_date_iff: "validate_date (PyStr s) = Inr k \<longleftrightarrow> denotes s k"
proof
  assume "validate_date (PyStr s) = Inr k"
  then obtain y m d where "strptime s = Some (y, m, d)" "k = isoformat (y, m, d)"
    by (auto simp add: validate_date_def split: option.splits)
  then show "denotes s k" using strptime_denotes by simp
qed (rule denotes_validate)

lemma accepted_date_iff: "accepted_date v \<longleftrightarrow> (\<exists>k. validate_date v = Inr k)"
proof (cases v)
  case (PyStr s)
  then show ?thesis by (simp add: accepted_date_def validate_date_iff)
qed (simp_all add: accepted_date_def validate_date_def)

lemma variant_from_self: "variant_from i p (ustr f) f"
  by (induction f arbitrary: i p) (simp_all add: ustr_def)

lemma lenient_forms_self: "canonical_date k \<Longrightarrow> k \<in> set (lenient_forms k)"
  by (drule canonical_date_shape) auto

lemma denotes_self: "canonical_date k \<Longrightarrow> denotes (ustr k) k"
  unfolding denotes_def variant_of_def using lenient_forms_self variant_from_self by blast

lemma validate_date_canonical: "canonical_date k \<Longrightarrow> validate_date (PyStr (ustr k)) = Inr k"
  by (rule denotes_validate) (rule denotes_self)

section \<open>Adding a record\<close>

lemma map_of_setdefault_set:
  "map_of (setdefault_set k k2 v d) k' =
     (if k' = k then Some (AList.update k2 v (case map_of d k of None \<Rightarrow> [] | Some inner \<Rightarrow> inner))
      else map_of d k')"
  by (auto simp add: setdefault_set_def map_add_def update_conv' split: option.splits)

lemma update_append_new: "k \<notin> fst ` set d \<Longrightarrow> AList.update k v d = d @ [(k, v)]"
  by (induction d) auto

lemma setdefault_set_update:
  "setdefault_set k k2 v d = AList.update k (AList.update k2 v (case map_of d k of None \<Rightarrow> [] | Some inner \<Rightarrow> inner)) d"
proof (cases "map_of d k")
  case None
  then have "k \<notin> fst ` set d" by (simp add: map_of_eq_None_iff)
  then show ?thesis using None by (simp add: setdefault_set_def update_append_new)
next
  case (Some inner)
  then show ?thesis by (simp add: setdefault_set_def)
qed

lemma dict_ok_update: "dict_ok d \<Longrightarrow> dict_ok (AList.update k v d)"
  by (simp add: dict_ok_def distinct_update)

lemma dict_ok_delete: "dict_ok d \<Longrightarrow> dict_ok (AList.delete k d)"
  by (simp add: dict_ok_def distinct_delete)

lemma dict_ok_Nil: "dict_ok []"
  by (simp add: dict_ok_def)

lemma set_update_subset: "set (AList.update k v d) \<subseteq> insert (k, v) (set d)"
  by (induction d) auto

lemma set_delete_subset: "set (AList.delete k d) \<subseteq> set d"
  by (auto simp add: AList.delete_eq)

lemma dict_ok_filter_one:
  "dict_ok d \<Longrightarrow> map_of d k = Some v \<Longrightarrow> filter (\<lambda>(k', v'). k' = k) d = [(k, v)]"
proof (induction d)
  case Nil
  then show ?case by simp
next
  case (Cons p d)
  obtain k' v' where p: "p = (k', v')" by (cases p)
  show ?case
  proof (cases "k' = k")
    case True
    then have "k \<notin> fst ` set d" using Cons.prems p by (auto simp add: dict_ok_def)
    then have "filter (\<lambda>(k', v'). k' = k) d = []" by (force simp add: filter_empty_conv)
    then show ?thesis using Cons.prems p True by simp
  next
    case False
    then show ?thesis using Cons p by (simp add: dict_ok_def)
  qed
qed

lemma list_all_update:
  "list_all P d \<Longrightarrow> P (k, v) \<Longrightarrow> list_all P (AList.update k v d)"
  using set_update_subset[of k v d] by (auto simp add: list_all_iff)

lemma list_all_delete: "list_all P d \<Longrightarrow> list_all P (AList.delete k d)"
  using set_delete_subset[of k d] by (auto simp add: list_all_iff)

lemma tracker_ok_inner: "tracker_ok t \<Longrightarrow> map_of (records t) e = Some r \<Longrightarrow> dict_ok r"
  by (auto simp add: tracker_ok_def list_all_iff dest!: map_of_SomeD)

lemma tracker_ok_setdefault_set:
  assumes "tracker_ok t" "records t' = setdefault_set n k s (records t)"
  shows "tracker_ok t'"
proof -
  have "dict_ok (case map_of (records t) n of None \<Rightarrow> [] | Some inner \<Rightarrow> inner)"
    using assms(1) by (auto simp add: dict_ok_Nil tracker_ok_inner split: option.splits)
  then show ?thesis using assms
    by (simp add: tracker_ok_def setdefault_set_update dict_ok_update list_all_update)
qed

lemma validate_status_known: "x \<in> set VALID_STATUSES \<Longrightarrow> validate_status (PyStr (ustr x)) = Inr x"
  by (auto simp add: validate_status_def VALID_STATUSES_def ustr_def codepoint_def)

lemma validate_status_unknown: "\<not> known_status v \<Longrightarrow> validate_status v = Inl InvalidStatus"
  by (auto simp add: validate_status_def known_status_def find_None_iff split: pyval.splits option.splits)

lemma known_statusE: "known_status v \<Longrightarrow> \<exists>x\<in>set VALID_STATUSES. v = PyStr (ustr x)"
  by (auto simp add: known_status_def split: pyval.splits)

lemma validate_status_Inr: "validate_status v = Inr s \<Longrightarrow> s \<in> set VALID_STATUSES \<and> v = PyStr (ustr s)"
  by (auto simp add: validate_status_def find_Some_iff split: pyval.splits option.splits)

lemma validate_emp_id_iff:
  "validate_emp_id v = (if positive_int v then Inr (id_key v) else Inl InvalidEmployeeId)"
  by (simp add: validate_emp_id_def positive_int_def id_key_def split: pyval.splits)

lemma validate_emp_id_Inr: "validate_emp_id v = Inr n \<Longrightarrow> 0 < n"
  by (auto simp add: validate_emp_id_def split: pyval.splits if_splits)

lemma validate_date_not_accepted: "\<not> accepted_date v \<Longrightarrow> validate_date v = Inl InvalidDateFormat"
  using validate_date_Inl[of v] by (cases "validate_date v") (auto simp add: accepted_date_iff)

lemma add_record_ok:
  assumes "positive_int emp_id" "validate_date dv = Inr k" "s \<in> set VALID_STATUSES"
  shows "fst (add_record emp_id dv (PyStr (ustr s)) t) = Inr ()
     \<and> records (snd (add_record emp_id dv (PyStr (ustr s)) t)) = setdefault_set (id_key emp_id) k s (records t)"
  using assms by (simp add: add_record_def validate_emp_id_iff validate_status_known)

lemma get_records_setdefault_set:
  "records t' = setdefault_set n k s (records t) \<Longrightarrow>
   get_records t' n = Some (AList.update k s (case get_records t n of None \<Rightarrow> [] | Some inner \<Rightarrow> inner))"
  by (simp add: get_records_def map_of_setdefault_set)

lemma get_records_setdefault_set_other:
  "records t' = setdefault_set n k s (records t) \<Longrightarrow> e \<noteq> n \<Longrightarrow> get_records t' e = get_records t e"
  by (simp add: get_records_def map_of_setdefault_set)

lemma record_status_setdefault_set:
  assumes "records t' = setdefault_set n k s (records t)"
  shows "record_status t' e d = (if e = n \<and> d = k then Some s else record_status t e d)"
proof (cases "e = n")
  case True
  then show ?thesis
    by (simp add: record_status_def get_records_setdefault_set[OF assms] update_conv' split: option.splits)
next
  case False
  then show ?thesis
    by (simp add: record_status_def get_records_setdefault_set_other[OF assms False])
qed

text \<open>
  Claim C1. For a positive employee number, a canonical date and a status of the three,
  \<open>add_record\<close> succeeds whatever the store holds; \<open>get_records\<close> then maps the date
  to that status, under one entry only; adding the same employee and date again with
  another status succeeds too and leaves that status, again under one entry.
\<close>

theorem add_then_get_records:
  assumes "0 < n" and "canonical_date date"
    and "status \<in> set VALID_STATUSES" and "status' \<in> set VALID_STATUSES"
    and "tracker_ok t"
  shows "\<exists>t' recs. add_record (PyInt n) (PyStr (ustr date)) (PyStr (ustr status)) t = (Inr (), t')
           \<and> get_records t' n = Some recs \<and> map_of recs date = Some status
           \<and> filter (\<lambda>(d, s). d = date) recs = [(date, status)]
           \<and> (\<exists>t'' recs'. add_record (PyInt n) (PyStr (ustr date)) (PyStr (ustr status')) t' = (Inr (), t'')
                 \<and> get_records t'' n = Some recs' \<and> map_of recs' date = Some status'
                 \<and> filter (\<lambda>(d, s). d = date) recs' = [(date, status')])"
proof -
  have vd: "validate_date (PyStr (ustr date)) = Inr date"
    using assms(2) by (rule validate_date_canonical)
  have p: "positive_int (PyInt n)" and ik: "id_key (PyInt n) = n"
    using assms(1) by (simp_all add: positive_int_def id_key_def)
  define t' where "t' = snd (add_record (PyInt n) (PyStr (ustr date)) (PyStr (ustr status)) t)"
  define t'' where "t'' = snd (add_record (PyInt n) (PyStr (ustr date)) (PyStr (ustr status')) t')"
  have a1: "add_record (PyInt n) (PyStr (ustr date)) (PyStr (ustr status)) t = (Inr (), t')"
    and r1: "records t' = setdefault_set n date status (records t)"
    unfolding t'_def using add_record_ok[OF p vd assms(3), of t] ik by (simp_all add: prod_eq_iff)
  have a2: "add_record (PyInt n) (PyStr (ustr date)) (PyStr (ustr status')) t' = (Inr (), t'')"
    and r2: "records t'' = setdefault_set n date status' (records t')"
    unfolding t''_def using add_record_ok[OF p vd assms(4), of t'] ik by (simp_all add: prod_eq_iff)
  have ok1: "tracker_ok t'" using assms(5) r1 by (rule tracker_ok_setdefault_set)
  have ok2: "tracker_ok t''" using ok1 r2 by (rule tracker_ok_setdefault_set)
  obtain recs where g1: "get_records t' n = Some recs" and m1: "map_of recs date = Some status"
    by (simp add: get_records_setdefault_set[OF r1] update_conv')
  obtain recs' where g2: "get_records t'' n = Some recs'" and m2: "map_of recs' date = Some status'"
    by (simp add: get_records_setdefault_set[OF r2] update_conv')
  have "dict_ok recs" using ok1 g1 by (auto simp add: get_records_def intro: tracker_ok_inner)
  then have f1: "filter (\<lambda>(d, s). d = date) recs = [(date, status)]"
    using m1 by (rule dict_ok_filter_one)
  have "dict_ok recs'" using ok2 g2 by (auto simp add: get_records_def intro: tracker_ok_inner)
  then have f2: "filter (\<lambda>(d, s). d = date) recs' = [(date, status')]"
    using m2 by (rule dict_ok_filter_one)
  show ?thesis using a1 a2 g1 g2 m1 m2 f1 f2 by blast
qed

lemma canonical_2026_02_01: "canonical_date ''2026-02-01''"
  by (simp add: is_digit_def digit_val_def valid_ymd_def days_in_month_def)

lemma tracker_ok_new: "tracker_ok new_tracker"
  by (simp add: tracker_ok_def new_tracker_def dict_ok_def)

theorem add_then_get_records_witness:
  "(0::int) < 101 \<and> canonical_date ''2026-02-01''
   \<and> ''Present'' \<in> set VALID_STATUSES \<and> ''Absent'' \<in> set VALID_STATUSES \<and> tracker_ok new_tracker
   \<and> (\<exists>t' recs. add_record (PyInt 101) (PyStr (ustr ''2026-02-01'')) (PyStr (ustr ''Present'')) new_tracker = (Inr (), t')
           \<and> get_records t' 101 = Some recs \<and> map_of recs ''2026-02-01'' = Some ''Present''
           \<and> filter (\<lambda>(d, s). d = ''2026-02-01'') recs = [(''2026-02-01'', ''Present'')]
           \<and> (\<exists>t'' recs'. add_record (PyInt 101) (PyStr (ustr ''2026-02-01'')) (PyStr (ustr ''Absent'')) t' = (Inr (), t'')
                 \<and> get_records t'' 101 = Some recs' \<and> map_of recs' ''2026-02-01'' = Some ''Absent''
                 \<and> filter (\<lambda>(d, s). d = ''2026-02-01'') recs' = [(''2026-02-01'', ''Absent'')]))"
proof -
  have h1: "(0::int) < 101" by simp
  have h2: "canonical_date ''2026-02-01''" by (rule canonical_2026_02_01)
  have h3: "''Present'' \<in> set VALID_STATUSES" by (simp add: VALID_STATUSES_def)
  have h4: "''Absent'' \<in> set VALID_STATUSES" by (simp add: VALID_STATUSES_def)
  have h5: "tracker_ok new_tracker" by (rule tracker_ok_new)
  from add_then_get_records[OF h1 h2 h3 h4 h5] show ?thesis using h1 h2 h3 h4 h5 by blast
qed

section \<open>The failures of \<open>add_record\<close>\<close>

text \<open>
  Claim C2, as the code has it. \<open>add_record\<close> raises the employee error for every value
  that is not a positive integer (\<^verbatim>\<open>True\<close> is the integer 1); for a positive integer it
  raises the date error for every value that is not a string read as a canonical date;
  for an accepted date it raises the status error for every status outside the three;
  whenever it raises, the store is the one it was. A string is read as the canonical
  date \<open>k\<close> when it is \<open>k\<close>, or \<open>k\<close> with the leading zero of the month left out, or with
  the leading zero of the day left out or written as a space, where a digit of the year
  and the second digit of the days 10 to 29 may be a decimal digit of any script. In
  the one case left \<open>add_record\<close> succeeds, the status is filed under the canonical date
  \<open>k\<close> that the string is read as, and no other record changes.
\<close>

theorem add_record_failures:
  "(\<not> positive_int emp_id \<longrightarrow> add_record emp_id date status t = (Inl InvalidEmployeeId, t))
   \<and> (positive_int emp_id \<and> \<not> accepted_date date \<longrightarrow>
        add_record emp_id date status t = (Inl InvalidDateFormat, t))
   \<and> (positive_int emp_id \<and> accepted_date date \<and> \<not> known_status status \<longrightarrow>
        add_record emp_id date status t = (Inl InvalidStatus, t))
   \<and> (\<forall>s k x. positive_int emp_id \<and> date = PyStr s \<and> denotes s k
          \<and> x \<in> set VALID_STATUSES \<and> status = PyStr (ustr x) \<longrightarrow>
        fst (add_record emp_id date status t) = Inr ()
        \<and> (\<forall>e d. record_status (snd (add_record emp_id date status t)) e d
               = (if e = id_key emp_id \<and> d = k then Some x else record_status t e d)))
   \<and> (fst (add_record emp_id date status t) \<noteq> Inr () \<longrightarrow> snd (add_record emp_id date status t) = t)"
proof (intro conjI impI allI)
  assume "\<not> positive_int emp_id"
  then show "add_record emp_id date status t = (Inl InvalidEmployeeId, t)"
    by (simp add: add_record_def validate_emp_id_iff)
next
  assume "positive_int emp_id \<and> \<not> accepted_date date"
  then show "add_record emp_id date status t = (Inl InvalidDateFormat, t)"
    by (simp add: add_record_def validate_emp_id_iff validate_date_not_accepted)
next
  assume a: "positive_int emp_id \<and> accepted_date date \<and> \<not> known_status status"
  then obtain k where "validate_date date = Inr k" by (auto simp add: accepted_date_iff)
  then show "add_record emp_id date status t = (Inl InvalidStatus, t)"
    using a by (simp add: add_record_def validate_emp_id_iff validate_status_unknown)
next
  fix s k x
  assume a: "positive_int emp_id \<and> date = PyStr s \<and> denotes s k
          \<and> x \<in> set VALID_STATUSES \<and> status = PyStr (ustr x)"
  then have v: "validate_date date = Inr k" by (simp add: validate_date_iff)
  from a have p: "positive_int emp_id" and x: "x \<in> set VALID_STATUSES" and st: "status = PyStr (ustr x)"
    by simp_all
  note r = add_record_ok[OF p v x, of t, folded st]
  from r show "fst (add_record emp_id date status t) = Inr ()" by simp
  fix e d
  from r have "records (snd (add_record emp_id date status t)) = setdefault_set (id_key emp_id) k x (records t)"
    by simp
  then show "record_status (snd (add_record emp_id date status t)) e d
               = (if e = id_key emp_id \<and> d = k then Some x else record_status t e d)"
    by (rule record_status_setdefault_set)
next
  assume "fst (add_record emp_id date status t) \<noteq> Inr ()"
  then show "snd (add_record emp_id date status t) = t"
    by (auto simp add: add_record_def split: sum.splits)
qed

lemma strptime_02_01_2026: "strptime (ustr ''02-01-2026'') = None"
  by (simp add: strptime_def ustr_def codepoint_def decimal_def decimal_zeros_def)

lemma not_accepted_None: "strptime s = None \<Longrightarrow> \<not> accepted_date (PyStr s)"
  by (simp add: accepted_date_iff validate_date_def)

lemma accepted_canonical: "canonical_date k \<Longrightarrow> accepted_date (PyStr (ustr k))"
  using denotes_self by (auto simp add: accepted_date_def)

lemma arabic_2026_02_12: "validate_date (PyStr [0x662, 0x660, 0x662, 0x666, 45, 48, 50, 45, 49, 0x662]) = Inr ''2026-02-12''"
  by (simp add: validate_date_def strptime_def decimal_def decimal_zeros_def digit_value_def cp_values
      nonzero_digit_def valid_ymd_def days_in_month_def isoformat_def zfill_def str_nat.simps digit_chr_eq_iff)

lemma denotes_2026_2_1: "denotes (ustr ''2026-2-1'') ''2026-02-01''"
  unfolding denotes_def variant_of_def
  by (rule conjI[OF canonical_2026_02_01]) (simp add: ustr_def)

lemma denotes_arabic: "denotes [0x662, 0x660, 0x662, 0x666, 45, 48, 50, 45, 49, 0x662] ''2026-02-12''"
  using arabic_2026_02_12 by (simp add: validate_date_iff)

theorem add_record_failures_witness:
  "\<not> positive_int (PyInt (- 1))
   \<and> add_record (PyInt (- 1)) (PyStr (ustr ''2026-02-01'')) (PyStr (ustr ''Present'')) new_tracker
       = (Inl InvalidEmployeeId, new_tracker)
   \<and> \<not> positive_int (PyFloat (3 / 2))
   \<and> add_record (PyFloat (3 / 2)) (PyStr (ustr ''2026-02-01'')) (PyStr (ustr ''Present'')) new_tracker
       = (Inl InvalidEmployeeId, new_tracker)
   \<and> positive_int (PyInt 101) \<and> \<not> accepted_date (PyStr (ustr ''02-01-2026''))
   \<and> add_record (PyInt 101) (PyStr (ustr ''02-01-2026'')) (PyStr (ustr ''Present'')) new_tracker
       = (Inl InvalidDateFormat, new_tracker)
   \<and> accepted_date (PyStr (ustr ''2026-02-01'')) \<and> \<not> known_status (PyStr (ustr ''Late''))
   \<and> add_record (PyInt 101) (PyStr (ustr ''2026-02-01'')) (PyStr (ustr ''Late'')) new_tracker
       = (Inl InvalidStatus, new_tracker)
   \<and> denotes (ustr ''2026-2-1'') ''2026-02-01'' \<and> ''Present'' \<in> set VALID_STATUSES
   \<and> fst (add_record (PyInt 101) (PyStr (ustr ''2026-2-1'')) (PyStr (ustr ''Present'')) new_tracker) = Inr ()
   \<and> record_status (snd (add_record (PyInt 101) (PyStr (ustr ''2026-2-1'')) (PyStr (ustr ''Present'')) new_tracker))
        101 ''2026-02-01'' = Some ''Present''
   \<and> positive_int (PyBool True)
   \<and> denotes [0x662, 0x660, 0x662, 0x666, 45, 48, 50, 45, 49, 0x662] ''2026-02-12''
   \<and> record_status (snd (add_record (PyBool True) (PyStr [0x662, 0x660, 0x662, 0x666, 45, 48, 50, 45, 49, 0x662])
          (PyStr (ustr ''Present'')) new_tracker)) 1 ''2026-02-12'' = Some ''Present''"
proof -
  let ?D = "PyStr (ustr ''2026-02-01'')" and ?P = "PyStr (ustr ''Present'')"
  let ?A = "[0x662, 0x660, 0x662, 0x666, 45, 48, 50, 45, 49, 0x662] :: ustring"
  have h1: "\<not> positive_int (PyInt (- 1))" "\<not> positive_int (PyFloat (3 / 2))" "positive_int (PyInt 101)"
      "positive_int (PyBool True)"
    by (simp_all add: positive_int_def)
  have h2: "\<not> accepted_date (PyStr (ustr ''02-01-2026''))"
    using strptime_02_01_2026 by (rule not_accepted_None)
  have h3: "accepted_date ?D"
    using canonical_2026_02_01 by (rule accepted_canonical)
  have h4: "\<not> known_status (PyStr (ustr ''Late''))"
    by (simp add: known_status_def VALID_STATUSES_def ustr_def codepoint_def)
  have h5: "''Present'' \<in> set VALID_STATUSES" by (simp add: VALID_STATUSES_def)
  have ik: "id_key (PyInt 101) = 101" "id_key (PyBool True) = 1" by (simp_all add: id_key_def)
  have w1: "add_record (PyInt (- 1)) ?D ?P new_tracker = (Inl InvalidEmployeeId, new_tracker)"
    using add_record_failures[of "PyInt (- 1)" ?D ?P new_tracker] h1(1)
    by (elim conjE) simp
  have w2: "add_record (PyFloat (3 / 2)) ?D ?P new_tracker = (Inl InvalidEmployeeId, new_tracker)"
    using add_record_failures[of "PyFloat (3 / 2)" ?D ?P new_tracker] h1(2)
    by (elim conjE) simp
  have w3: "add_record (PyInt 101) (PyStr (ustr ''02-01-2026'')) ?P new_tracker
       = (Inl InvalidDateFormat, new_tracker)"
    using add_record_failures[of "PyInt 101" "PyStr (ustr ''02-01-2026'')" ?P new_tracker] h1(3) h2
    by (elim conjE) simp
  have w4: "add_record (PyInt 101) ?D (PyStr (ustr ''Late'')) new_tracker = (Inl InvalidStatus, new_tracker)"
    using add_record_failures[of "PyInt 101" ?D "PyStr (ustr ''Late'')" new_tracker] h1(3) h3 h4
    by (elim conjE) simp
  note s5 = add_record_failures[of "PyInt 101" "PyStr (ustr ''2026-2-1'')" ?P new_tracker,
      THEN conjunct2, THEN conjunct2, THEN conjunct2, THEN conjunct1, rule_format,
      of "ustr ''2026-2-1''" "''2026-02-01''" "''Present''"]
  have c5: "positive_int (PyInt 101) \<and> PyStr (ustr ''2026-2-1'') = PyStr (ustr ''2026-2-1'')
      \<and> denotes (ustr ''2026-2-1'') ''2026-02-01'' \<and> ''Present'' \<in> set VALID_STATUSES \<and> ?P = ?P"
    using h1(3) denotes_2026_2_1 h5 by simp
  have w5: "fst (add_record (PyInt 101) (PyStr (ustr ''2026-2-1'')) ?P new_tracker) = Inr ()"
    using s5[OF c5] by (rule conjunct1)
  have w6: "record_status (snd (add_record (PyInt 101) (PyStr (ustr ''2026-2-1'')) ?P new_tracker))
        101 ''2026-02-01'' = Some ''Present''"
    using s5[OF c5, THEN conjunct2, rule_format, of 101 "''2026-02-01''"] ik by simp
  note s7 = add_record_failures[of "PyBool True" "PyStr ?A" ?P new_tracker,
      THEN conjunct2, THEN conjunct2, THEN conjunct2, THEN conjunct1, rule_format,
      of ?A "''2026-02-12''" "''Present''"]
  have c7: "positive_int (PyBool True) \<and> PyStr ?A = PyStr ?A
      \<and> denotes ?A ''2026-02-12'' \<and> ''Present'' \<in> set VALID_STATUSES \<and> ?P = ?P"
    using h1(4) denotes_arabic h5 by simp
  have w7: "record_status (snd (add_record (PyBool True) (PyStr ?A) ?P new_tracker)) 1 ''2026-02-12'' = Some ''Present''"
    using s7[OF c7, THEN conjunct2, rule_format, of 1 "''2026-02-12''"] ik by simp
  show ?thesis
    by (intro conjI) (fact h1 h2 h3 h4 h5 w1 w2 w3 w4 w5 w6 w7 denotes_2026_2_1 denotes_arabic)+
qed

lemma validate_date_2026_2_1: "validate_date (PyStr (ustr ''2026-2-1'')) = Inr ''2026-02-01''"
  using denotes_2026_2_1 by (rule denotes_validate)

text \<open>
  Claim C2 as it is written fails: \<^verbatim>\<open>2026-2-1\<close> is not canonical, and \<open>add_record\<close>
  takes it and files the record under \<^verbatim>\<open>2026-02-01\<close>.
\<close>

theorem noncanonical_date_accepted:
  "\<not> canonical_date ''2026-2-1''
   \<and> add_record (PyInt 1) (PyStr (ustr ''2026-2-1'')) (PyStr (ustr ''Present'')) new_tracker
       = (Inr (), \<lparr>records = [(1, [(''2026-02-01'', ''Present'')])], key_True = False\<rparr>)"
  by (simp add: add_record_def validate_emp_id_def validate_date_2026_2_1 validate_status_known
      VALID_STATUSES_def new_tracker_def setdefault_set_def)

section \<open>The invariant of the store\<close>

lemma add_record_cases:
  "add_record emp_id date status t = (Inl e, t') \<Longrightarrow> t' = t"
  by (auto simp add: add_record_def split: sum.splits)

lemma add_record_snd:
  "snd (add_record emp_id date status t) = t \<or>
   (\<exists>n k s. 0 < n \<and> canonical_date k \<and> s \<in> set VALID_STATUSES
      \<and> records (snd (add_record emp_id date status t)) = setdefault_set n k s (records t))"
proof (cases "fst (add_record emp_id date status t)")
  case (Inl e)
  then show ?thesis using add_record_cases[of emp_id date status t e "snd (add_record emp_id date status t)"]
    by (metis prod.collapse)
next
  case (Inr u)
  then obtain n k s where v: "validate_emp_id emp_id = Inr n" "validate_date date = Inr k"
      "validate_status status = Inr s"
    by (auto simp add: add_record_def split: sum.splits)
  have "0 < n" using v(1) by (rule validate_emp_id_Inr)
  moreover have "canonical_date k" using v(2) by (rule validate_date_Inr_canonical)
  moreover have "s \<in> set VALID_STATUSES"
    using v(3) by (simp add: validate_status_Inr)
  moreover have "records (snd (add_record emp_id date status t)) = setdefault_set n k s (records t)"
    using v by (simp add: add_record_def)
  ultimately show ?thesis by blast
qed

lemma store_inv_inner:
  "store_inv t \<Longrightarrow> map_of (records t) e = Some r \<Longrightarrow>
     0 < e \<and> r \<noteq> [] \<and> list_all (\<lambda>(date, status). canonical_date date \<and> status \<in> set VALID_STATUSES) r"
  by (auto simp add: store_inv_def list_all_iff dest!: map_of_SomeD)

lemma store_inv_setdefault_set:
  assumes "store_inv t" "0 < n" "canonical_date k" "s \<in> set VALID_STATUSES"
    and "records t' = setdefault_set n k s (records t)"
  shows "store_inv t'"
proof -
  let ?Q = "\<lambda>(date, status). canonical_date date \<and> status \<in> set VALID_STATUSES"
  let ?inner = "case map_of (records t) n of None \<Rightarrow> [] | Some inner \<Rightarrow> inner"
  have "list_all ?Q ?inner"
    using assms(1) by (auto dest: store_inv_inner split: option.splits)
  then have "list_all ?Q (AList.update k s ?inner)"
    using assms(3,4) by (intro list_all_update) simp_all
  then show ?thesis using assms(1,2,5)
    by (simp add: store_inv_def setdefault_set_update list_all_update)
qed

lemma store_inv_add_record: "store_inv t \<Longrightarrow> store_inv (snd (add_record emp_id date status t))"
  using add_record_snd[of emp_id date status t] by (auto intro: store_inv_setdefault_set)

lemma tracker_ok_add_record: "tracker_ok t \<Longrightarrow> tracker_ok (snd (add_record emp_id date status t))"
  using add_record_snd[of emp_id date status t] by (auto intro: tracker_ok_setdefault_set)

lemma delete_record_snd:
  "snd (delete_record emp_id date t) = t \<or>
   (\<exists>k inner. map_of (records t) emp_id = Some inner \<and>
      (AList.delete k inner = [] \<and> snd (delete_record emp_id date t) = t\<lparr>records := AList.delete emp_id (records t)\<rparr>
       \<or> AList.delete k inner \<noteq> [] \<and>
         snd (delete_record emp_id date t) = t\<lparr>records := AList.update emp_id (AList.delete k inner) (records t)\<rparr>))"
  by (auto simp add: delete_record_def Let_def split: sum.splits option.splits)

lemma store_inv_delete_record: 
  assumes "store_inv t" shows "store_inv (snd (delete_record emp_id date t))"
proof -
  let ?Q = "\<lambda>(date, status). canonical_date date \<and> status \<in> set VALID_STATUSES"
  from delete_record_snd[of emp_id date t] show ?thesis
  proof (elim disjE exE conjE)
    assume "snd (delete_record emp_id date t) = t"
    then show ?thesis using assms by simp
  next
    fix k inner
    assume "snd (delete_record emp_id date t) = t\<lparr>records := AList.delete emp_id (records t)\<rparr>"
    then show ?thesis using assms by (simp add: store_inv_def list_all_delete)
  next
    fix k inner
    assume a: "map_of (records t) emp_id = Some inner" "AList.delete k inner \<noteq> []"
      "snd (delete_record emp_id date t) = t\<lparr>records := AList.update emp_id (AList.delete k inner) (records t)\<rparr>"
    from store_inv_inner[OF assms a(1)] have "0 < emp_id" "list_all ?Q (AList.delete k inner)"
      by (simp_all add: list_all_delete)
    then show ?thesis using assms a(2,3) by (simp add: store_inv_def list_all_update)
  qed
qed

lemma tracker_ok_delete_record:
  assumes "tracker_ok t" shows "tracker_ok (snd (delete_record emp_id date t))"
proof -
  from delete_record_snd[of emp_id date t] show ?thesis
  proof (elim disjE exE conjE)
    assume "snd (delete_record emp_id date t) = t"
    then show ?thesis using assms by simp
  next
    fix k inner
    assume "snd (delete_record emp_id date t) = t\<lparr>records := AList.delete emp_id (records t)\<rparr>"
    then show ?thesis using assms by (simp add: tracker_ok_def list_all_delete dict_ok_delete)
  next
    fix k inner
    assume a: "map_of (records t) emp_id = Some inner"
      "snd (delete_record emp_id date t) = t\<lparr>records := AList.update emp_id (AList.delete k inner) (records t)\<rparr>"
    have "dict_ok (AList.delete k inner)" using tracker_ok_inner[OF assms a(1)] by (rule dict_ok_delete)
    then show ?thesis using assms a(2) by (simp add: tracker_ok_def list_all_update dict_ok_update)
  qed
qed

lemma import_row_snd:
  "snd (import_row row t) = t \<or> (\<exists>a b c. snd (import_row row t) = snd (add_record a b c t))"
  by (auto simp add: import_row_def split: sum.splits)

lemma import_loop_preserves:
  assumes step: "\<And>a b c t. P t \<Longrightarrow> P (snd (add_record a b c t))"
  shows "P t \<Longrightarrow> P (snd (import_loop rows count t))"
proof (induction rows arbitrary: count t)
  case Nil
  then show ?case by simp
next
  case (Cons row rows)
  have p: "P (snd (import_row row t))"
    using import_row_snd[of row t] Cons.prems step by auto
  obtain res t' where r: "import_row row t = (res, t')" by (cases "import_row row t")
  then have "P t'" using p by simp
  then show ?case using r Cons.IH[of t'] by (cases res) auto
qed

lemma import_from_csv_snd:
  "snd (import_from_csv content t) = snd (import_loop (DictReader (fst (csv_reader content))) 0 t)"
  by (auto simp add: import_from_csv_def import_rows_def split: prod.splits sum.splits option.splits)

lemma import_from_csv_preserves:
  assumes "\<And>a b c t. P t \<Longrightarrow> P (snd (add_record a b c t))" "P t"
  shows "P (snd (import_from_csv content t))"
  unfolding import_from_csv_snd using assms by (rule import_loop_preserves)

lemma store_inv_new: "store_inv new_tracker"
  by (simp add: store_inv_def new_tracker_def)

lemma reachable_inv: "reachable t \<Longrightarrow> store_inv t \<and> tracker_ok t"
proof (induction rule: reachable.induct)
  case reachable_new
  then show ?case by (simp add: tracker_ok_new store_inv_new)
next
  case (reachable_add t emp_id date status)
  then show ?case by (simp add: store_inv_add_record tracker_ok_add_record)
next
  case (reachable_delete t emp_id date)
  then show ?case by (simp add: store_inv_delete_record tracker_ok_delete_record)
next
  case (reachable_import t content)
  then show ?case
    using import_from_csv_preserves[of store_inv t content]
      import_from_csv_preserves[of tracker_ok t content]
    by (simp add: store_inv_add_record tracker_ok_add_record)
qed

text \<open>
  Claim C3. Every store that is reached from the empty one by \<open>add_record\<close>,
  \<open>delete_record\<close> and \<open>import_from_csv\<close>, whether the call returns or raises, has
  positive employee numbers, non-empty inner dictionaries, canonical dates and statuses of
  the three, and no key twice; after a deletion no employee is left with an empty
  dictionary.
\<close>

theorem reachable_store_invariant:
  assumes "reachable t"
  shows "store_inv t \<and> tracker_ok t
     \<and> (\<forall>emp_id date. get_records (snd (delete_record emp_id date t)) emp_id \<noteq> Some [])"
proof -
  have "get_records (snd (delete_record emp_id date t)) emp_id \<noteq> Some []" for emp_id date
  proof -
    have "reachable (snd (delete_record emp_id date t))" using assms by (rule reachable_delete)
    then have "store_inv (snd (delete_record emp_id date t))" by (simp add: reachable_inv)
    then show ?thesis using store_inv_inner[of "snd (delete_record emp_id date t)" emp_id "[]"]
      by (auto simp add: get_records_def)
  qed
  then show ?thesis using reachable_inv[OF assms] by simp
qed

theorem reachable_store_invariant_witness:
  "reachable (snd (add_record (PyInt 101) (PyStr (ustr ''2026-02-01'')) (PyStr (ustr ''Present'')) new_tracker))
   \<and> store_inv (snd (add_record (PyInt 101) (PyStr (ustr ''2026-02-01'')) (PyStr (ustr ''Present'')) new_tracker))
   \<and> tracker_ok (snd (add_record (PyInt 101) (PyStr (ustr ''2026-02-01'')) (PyStr (ustr ''Present'')) new_tracker))
   \<and> (\<forall>emp_id date. get_records (snd (delete_record emp_id date
          (snd (add_record (PyInt 101) (PyStr (ustr ''2026-02-01'')) (PyStr (ustr ''Present'')) new_tracker)))) emp_id \<noteq> Some [])
   \<and> records (snd (add_record (PyInt 101) (PyStr (ustr ''2026-02-01'')) (PyStr (ustr ''Present'')) new_tracker))
       = [(101, [(''2026-02-01'', ''Present'')])]"
proof -
  let ?T = "snd (add_record (PyInt 101) (PyStr (ustr ''2026-02-01'')) (PyStr (ustr ''Present'')) new_tracker)"
  have r: "reachable ?T" using reachable_new by (rule reachable_add)
  have e: "records ?T = [(101, [(''2026-02-01'', ''Present'')])]"
    by (simp add: add_record_def validate_emp_id_def validate_date_canonical[OF canonical_2026_02_01]
        validate_status_known VALID_STATUSES_def new_tracker_def setdefault_set_def)
  show ?thesis using r e reachable_store_invariant[OF r] by simp
qed

section \<open>Deleting a record\<close>

lemma delete_Nil_iff: "AList.delete k al = [] \<longleftrightarrow> (\<forall>d. d \<noteq> k \<longrightarrow> map_of al d = None)"
proof
  assume "AList.delete k al = []"
  then have "map_of (AList.delete k al) = Map.empty" by simp
  then show "\<forall>d. d \<noteq> k \<longrightarrow> map_of al d = None"
    by (metis map_of_delete)
next
  assume a: "\<forall>d. d \<noteq> k \<longrightarrow> map_of al d = None"
  have "\<forall>p\<in>set al. fst p = k"
  proof
    fix p assume "p \<in> set al"
    then have "map_of al (fst p) \<noteq> None" by (simp add: map_of_eq_None_iff)
    then show "fst p = k" using a by auto
  qed
  then show "AList.delete k al = []" by (auto simp add: AList.delete_eq filter_empty_conv)
qed

lemma in_keys_iff: "k \<in> fst ` set al \<longleftrightarrow> map_of al k \<noteq> None"
  by (simp add: map_of_eq_None_iff)

lemma delete_record_absent:
  assumes "validate_date date = Inr k" "record_status t emp_id k = None"
  shows "delete_record emp_id date t = (Inr False, t)"
proof (cases "map_of (records t) emp_id")
  case None
  then show ?thesis using assms(1) by (simp add: delete_record_def)
next
  case (Some inner)
  then have "map_of inner k = None" using assms(2) by (simp add: record_status_def get_records_def)
  then show ?thesis using assms(1) Some by (simp add: delete_record_def in_keys_iff)
qed

lemma delete_record_present:
  assumes "validate_date date = Inr k" "get_records t emp_id = Some recs" "map_of recs k \<noteq> None"
  shows "delete_record emp_id date t =
     (Inr True, t\<lparr>records := (if AList.delete k recs = [] then AList.delete emp_id (records t)
                                 else AList.update emp_id (AList.delete k recs) (records t))\<rparr>)"
  using assms by (simp add: delete_record_def get_records_def in_keys_iff Let_def)

lemma get_records_after_delete:
  assumes "validate_date date = Inr k" "get_records t emp_id = Some recs" "map_of recs k \<noteq> None"
  shows "get_records (snd (delete_record emp_id date t)) e =
     (if e = emp_id then (if AList.delete k recs = [] then None else Some (AList.delete k recs))
      else get_records t e)"
  unfolding delete_record_present[OF assms]
  by (simp add: get_records_def delete_conv' update_conv')

lemma record_status_after_delete:
  assumes "validate_date date = Inr k" "get_records t emp_id = Some recs" "map_of recs k \<noteq> None"
  shows "record_status (snd (delete_record emp_id date t)) e d =
     (if e = emp_id \<and> d = k then None else record_status t e d)"
proof (cases "e = emp_id")
  case False
  then show ?thesis
    unfolding record_status_def get_records_after_delete[OF assms] by simp
next
  case True
  show ?thesis
  proof (cases "AList.delete k recs = []")
    case e: True
    then have "\<forall>d. d \<noteq> k \<longrightarrow> map_of recs d = None" by (simp add: delete_Nil_iff)
    then show ?thesis using True e assms(2)
      unfolding record_status_def get_records_after_delete[OF assms] by simp
  next
    case ne: False
    then show ?thesis using True assms(2)
      unfolding record_status_def get_records_after_delete[OF assms] by (simp add: delete_conv')
  qed
qed

text \<open>
  Claim C5, as the code has it. \<open>delete_record\<close> raises the date error for every value
  that is not a string read as a canonical date, whatever the store holds. For a string
  read as the canonical date \<open>k\<close> (\<open>k\<close> itself or one of its other accepted forms) it
  returns \<^verbatim>\<open>False\<close> and leaves the store as it is when the store has no status for the
  employee and \<open>k\<close>; otherwise it returns \<^verbatim>\<open>True\<close>, that one status is gone and every
  other one is kept, and the employee is gone from the store exactly when it had no
  other date.
\<close>

theorem delete_record_spec:
  "(\<not> accepted_date date \<longrightarrow> delete_record emp_id date t = (Inl InvalidDateFormat, t))
   \<and> (\<forall>s k. date = PyStr s \<and> denotes s k \<longrightarrow>
        (if record_status t emp_id k = None then delete_record emp_id date t = (Inr False, t)
         else fst (delete_record emp_id date t) = Inr True
            \<and> (\<forall>e d. record_status (snd (delete_record emp_id date t)) e d
                       = (if e = emp_id \<and> d = k then None else record_status t e d))
            \<and> (\<forall>e. e \<noteq> emp_id \<longrightarrow> get_records (snd (delete_record emp_id date t)) e = get_records t e)
            \<and> (get_records (snd (delete_record emp_id date t)) emp_id = None
                 \<longleftrightarrow> (\<forall>d. d \<noteq> k \<longrightarrow> record_status t emp_id d = None))))"
proof (intro conjI allI impI)
  assume "\<not> accepted_date date"
  then show "delete_record emp_id date t = (Inl InvalidDateFormat, t)"
    by (simp add: delete_record_def validate_date_not_accepted)
next
  fix s k assume "date = PyStr s \<and> denotes s k"
  then have v: "validate_date date = Inr k" by (simp add: validate_date_iff)
  show "if record_status t emp_id k = None then delete_record emp_id date t = (Inr False, t)
         else fst (delete_record emp_id date t) = Inr True
            \<and> (\<forall>e d. record_status (snd (delete_record emp_id date t)) e d
                       = (if e = emp_id \<and> d = k then None else record_status t e d))
            \<and> (\<forall>e. e \<noteq> emp_id \<longrightarrow> get_records (snd (delete_record emp_id date t)) e = get_records t e)
            \<and> (get_records (snd (delete_record emp_id date t)) emp_id = None
                 \<longleftrightarrow> (\<forall>d. d \<noteq> k \<longrightarrow> record_status t emp_id d = None))"
  proof (cases "record_status t emp_id k = None")
    case True
    then show ?thesis using v by (simp add: delete_record_absent)
  next
    case False
    then obtain recs where g: "get_records t emp_id = Some recs" and m: "map_of recs k \<noteq> None"
      by (auto simp add: record_status_def split: option.splits)
    have c1: "fst (delete_record emp_id date t) = Inr True"
      by (simp add: delete_record_present[OF v g m])
    have c2: "\<forall>e d. record_status (snd (delete_record emp_id date t)) e d
                       = (if e = emp_id \<and> d = k then None else record_status t e d)"
      by (intro allI) (rule record_status_after_delete[OF v g m])
    have c3: "\<forall>e. e \<noteq> emp_id \<longrightarrow> get_records (snd (delete_record emp_id date t)) e = get_records t e"
      by (simp add: get_records_after_delete[OF v g m])
    have "(AList.delete k recs = []) = (\<forall>d. d \<noteq> k \<longrightarrow> record_status t emp_id d = None)"
      using g by (simp add: delete_Nil_iff record_status_def)
    then have c4: "get_records (snd (delete_record emp_id date t)) emp_id = None
                 \<longleftrightarrow> (\<forall>d. d \<noteq> k \<longrightarrow> record_status t emp_id d = None)"
      by (simp add: get_records_after_delete[OF v g m])
    show ?thesis using False c1 c2 c3 c4 by (simp only: if_False simp_thms)
  qed
qed

theorem delete_record_spec_witness:
  "denotes (ustr ''2026-2-1'') ''2026-02-01''
   \<and> record_status \<lparr>records = [(107, [(''2026-02-01'', ''Present'')])], key_True = False\<rparr> 107 ''2026-02-01'' = Some ''Present''
   \<and> fst (delete_record 107 (PyStr (ustr ''2026-2-1'')) \<lparr>records = [(107, [(''2026-02-01'', ''Present'')])], key_True = False\<rparr>) = Inr True
   \<and> get_records (snd (delete_record 107 (PyStr (ustr ''2026-2-1'')) \<lparr>records = [(107, [(''2026-02-01'', ''Present'')])], key_True = False\<rparr>)) 107 = None
   \<and> delete_record 999 (PyStr (ustr ''2026-2-1'')) \<lparr>records = [(107, [(''2026-02-01'', ''Present'')])], key_True = False\<rparr>
       = (Inr False, \<lparr>records = [(107, [(''2026-02-01'', ''Present'')])], key_True = False\<rparr>)
   \<and> \<not> accepted_date (PyStr (ustr ''02-01-2026''))
   \<and> delete_record 107 (PyStr (ustr ''02-01-2026'')) \<lparr>records = [(107, [(''2026-02-01'', ''Present'')])], key_True = False\<rparr>
       = (Inl InvalidDateFormat, \<lparr>records = [(107, [(''2026-02-01'', ''Present'')])], key_True = False\<rparr>)"
proof -
  let ?T = "\<lparr>records = [(107, [(''2026-02-01'', ''Present'')])], key_True = False\<rparr>"
  let ?D = "PyStr (ustr ''2026-2-1'')"
  have v: "?D = ?D \<and> denotes (ustr ''2026-2-1'') ''2026-02-01''"
    using denotes_2026_2_1 by simp
  have s1: "record_status ?T 107 ''2026-02-01'' = Some ''Present''"
    by (simp add: record_status_def get_records_def)
  have s2: "\<forall>d. d \<noteq> ''2026-02-01'' \<longrightarrow> record_status ?T 107 d = None"
    by (simp add: record_status_def get_records_def)
  have s3: "record_status ?T 999 ''2026-02-01'' = None"
    by (simp add: record_status_def get_records_def)
  have na: "\<not> accepted_date (PyStr (ustr ''02-01-2026''))"
    using strptime_02_01_2026 by (rule not_accepted_None)
  note p = delete_record_spec[of ?D 107 ?T, THEN conjunct2, rule_format, OF v]
  note q = delete_record_spec[of ?D 999 ?T, THEN conjunct2, rule_format, OF v]
  note n = delete_record_spec[of "PyStr (ustr ''02-01-2026'')" 107 ?T, THEN conjunct1, rule_format, OF na]
  have w1: "fst (delete_record 107 ?D ?T) = Inr True"
    using p s1 by simp
  have w2: "get_records (snd (delete_record 107 ?D ?T)) 107 = None"
    using p s1 s2 by simp
  have w3: "delete_record 999 ?D ?T = (Inr False, ?T)"
    using q s3 by simp
  show ?thesis by (intro conjI) (fact denotes_2026_2_1 s1 w1 w2 w3 na n)+
qed

text \<open>
  Claim C5 as it is written fails, if a malformed date is one that is not canonical:
  \<^verbatim>\<open>2026-2-1\<close> is not canonical, and \<open>delete_record\<close> takes it, returns \<^verbatim>\<open>True\<close> and
  removes the record of \<^verbatim>\<open>2026-02-01\<close>.
\<close>

theorem delete_noncanonical_date:
  "\<not> canonical_date ''2026-2-1''
   \<and> reachable \<lparr>records = [(7, [(''2026-02-01'', ''Present'')])], key_True = False\<rparr>
   \<and> delete_record 7 (PyStr (ustr ''2026-2-1'')) \<lparr>records = [(7, [(''2026-02-01'', ''Present'')])], key_True = False\<rparr>
       = (Inr True, \<lparr>records = [], key_True = False\<rparr>)"
proof -
  have a: "snd (add_record (PyInt 7) (PyStr (ustr ''2026-02-01'')) (PyStr (ustr ''Present'')) new_tracker)
       = \<lparr>records = [(7, [(''2026-02-01'', ''Present'')])], key_True = False\<rparr>"
    by (simp add: add_record_def validate_emp_id_def validate_date_canonical[OF canonical_2026_02_01]
        validate_status_known VALID_STATUSES_def new_tracker_def setdefault_set_def)
  have r: "reachable \<lparr>records = [(7, [(''2026-02-01'', ''Present'')])], key_True = False\<rparr>"
    using reachable_add[OF reachable_new, of "PyInt 7" "PyStr (ustr ''2026-02-01'')" "PyStr (ustr ''Present'')"]
    unfolding a .
  have d: "delete_record 7 (PyStr (ustr ''2026-2-1'')) \<lparr>records = [(7, [(''2026-02-01'', ''Present'')])], key_True = False\<rparr>
       = (Inr True, \<lparr>records = [], key_True = False\<rparr>)"
    by (simp add: delete_record_def validate_date_2026_2_1)
  have c: "\<not> canonical_date ''2026-2-1''" by simp
  show ?thesis using c r d by (intro conjI)
qed

end
